theory Spec2Isabelle
  imports Complex_Main "HOL-Library.Multiset"
begin

section \<open>Numbers and errors\<close>

text \<open>
  The module \<^verbatim>\<open>gpu/gpu_wrap.py\<close> computes in double precision. Rounding is not
  modelled: a finite double is a real number. A value of type \<open>float64\<close> is what a
  floating-point expression yields: \<open>Some r\<close> for the finite value \<open>r\<close>, \<open>None\<close> for a
  result that is not finite (NaN or an infinity). The two ways the module can produce
  such a result are a division by zero and the square root of a negative number; every
  operation applied to a result that is not finite gives one that is not finite either.
\<close>

type_synonym float64 = "real option"

definition fsub :: "float64 \<Rightarrow> float64 \<Rightarrow> float64" where
  "fsub x y = Option.bind x (\<lambda>a. Option.bind y (\<lambda>b. Some (a - b)))"

definition fmul :: "float64 \<Rightarrow> float64 \<Rightarrow> float64" where
  "fmul x y = Option.bind x (\<lambda>a. Option.bind y (\<lambda>b. Some (a * b)))"

definition fdiv :: "float64 \<Rightarrow> float64 \<Rightarrow> float64" where
  "fdiv x y = Option.bind x (\<lambda>a. Option.bind y (\<lambda>b. if b = 0 then None else Some (a / b)))"

definition fsqrt :: "float64 \<Rightarrow> float64" where
  "fsqrt x = Option.bind x (\<lambda>a. if a < 0 then None else Some (sqrt a))"

text \<open>The exceptions the module can end with, and the marker \<open>IllegalAddress\<close> for a
  device read outside the storage of an array, which the GPU leaves undefined.\<close>

datatype error = TypeError | NameError | AssertionError | AttributeError | IndexError
  | IllegalAddress

section \<open>Whole-beam statistics\<close>

text \<open>\<^verbatim>\<open>skcuda.misc.mean\<close>: the sum over the number of entries; for an empty array
  this is \<open>0 / 0\<close>.\<close>

definition gpu_mean :: "real list \<Rightarrow> float64" where
  "gpu_mean a = (if a = [] then None else Some (sum_list a / real (length a)))"

text \<open>
  \<^verbatim>\<open>covariance(a, b)\<close>, lines 44 to 56. The arguments are two arrays of one length
  (the elementwise product \<^verbatim>\<open>x * y\<close> of the GPU array library is only meaningful
  then); the product is written with \<open>map2\<close>.
\<close>

definition covariance :: "real list \<Rightarrow> real list \<Rightarrow> float64" where
  "covariance a b =
     (let n = length a in
      Option.bind (gpu_mean a) (\<lambda>mean_a.
      let x = map (\<lambda>e. e - mean_a) a in
      Option.bind (gpu_mean b) (\<lambda>mean_b.
      let y = map (\<lambda>e. e - mean_b) b in
      Option.bind (gpu_mean (map2 (*) x y)) (\<lambda>m.
      Some (m * real n / (real n + 1))))))"

text \<open>\<^verbatim>\<open>emittance(u, up, dp)\<close>, lines 58 to 83; \<^verbatim>\<open>dp\<close> may be \<^verbatim>\<open>None\<close>.\<close>

definition emittance :: "real list \<Rightarrow> real list \<Rightarrow> real list option \<Rightarrow> float64" where
  "emittance u up dp =
     (let cov_u2 = covariance u u;
          cov_up2 = covariance up up;
          cov_u_up = covariance up u;
          (cov_u_dp, cov_up_dp, cov_dp2) =
             (case dp of
                None \<Rightarrow> (Some 0, Some 0, Some 1)
              | Some d \<Rightarrow> (covariance u d, covariance up d, covariance d d));
          sigma11 = fsub cov_u2 (fdiv (fmul cov_u_dp cov_u_dp) cov_dp2);
          sigma12 = fsub cov_u_up (fdiv (fmul cov_u_dp cov_up_dp) cov_dp2);
          sigma22 = fsub cov_up2 (fdiv (fmul cov_up_dp cov_up_dp) cov_dp2)
      in fsqrt (fsub (fmul sigma11 sigma22) (fmul sigma12 sigma12)))"

subsection \<open>The covariance and emittance formulas as the specification words them\<close>

definition mean :: "real list \<Rightarrow> real" where
  "mean a = sum_list a / real (length a)"

text \<open>The mean of the products of the deviations, scaled by \<open>n / (n + 1)\<close>.\<close>

definition cov :: "real list \<Rightarrow> real list \<Rightarrow> real" where
  "cov a b =
     mean (map (\<lambda>i. (a ! i - mean a) * (b ! i - mean b)) [0..<length a])
       * real (length a) / real (length a + 1)"

text \<open>The same sum with Bessel's correction and with none, for comparison.\<close>

definition cov_bessel :: "real list \<Rightarrow> real list \<Rightarrow> real" where
  "cov_bessel a b =
     (\<Sum>i\<leftarrow>[0..<length a]. (a ! i - mean a) * (b ! i - mean b)) / (real (length a) - 1)"

definition cov_plain :: "real list \<Rightarrow> real list \<Rightarrow> real" where
  "cov_plain a b =
     (\<Sum>i\<leftarrow>[0..<length a]. (a ! i - mean a) * (b ! i - mean b)) / real (length a)"

text \<open>The emittance of six covariances: \<open>sqrt (\<sigma>11 \<sigma>22 - \<sigma>12\<^sup>2)\<close>; a zero \<open>cov(dp,dp)\<close> or
  a negative radicand gives a result that is not finite.\<close>

definition emittance_of_cov :: "real \<Rightarrow> real \<Rightarrow> real \<Rightarrow> real \<Rightarrow> real \<Rightarrow> real \<Rightarrow> float64" where
  "emittance_of_cov c_u_u c_up_up c_u_up c_u_dp c_up_dp c_dp_dp =
     (if c_dp_dp = 0 then None
      else
        let sigma11 = c_u_u - c_u_dp\<^sup>2 / c_dp_dp;
            sigma12 = c_u_up - c_u_dp * c_up_dp / c_dp_dp;
            sigma22 = c_up_up - c_up_dp\<^sup>2 / c_dp_dp;
            radicand = sigma11 * sigma22 - sigma12\<^sup>2
        in if radicand < 0 then None else Some (sqrt radicand))"

section \<open>Slice bounds\<close>

text \<open>Modelled from the spec: the module \<^verbatim>\<open>thrust_interface\<close> that provides
  \<^verbatim>\<open>thrust.lower_bound_int\<close> and \<^verbatim>\<open>thrust.upper_bound_int\<close> is not among the
  sources. The specification describes them as a monotonic search, logarithmic per
  query, for the first position whose entry is \<open>\<ge> i\<close> (lower bound) and the first
  position whose entry is \<open>> i\<close> (upper bound): a binary search over \<open>[lo, hi)\<close>, which
  moves right while the probed entry is still before the sought position.\<close>

function bsearch :: "(int \<Rightarrow> bool) \<Rightarrow> int list \<Rightarrow> nat \<Rightarrow> nat \<Rightarrow> nat" where
  "bsearch before xs lo hi =
     (if lo < hi then
        (if before (xs ! (lo + (hi - lo) div 2))
         then bsearch before xs (Suc (lo + (hi - lo) div 2)) hi
         else bsearch before xs lo (lo + (hi - lo) div 2))
      else lo)"
  by pat_completeness auto
termination
  by (relation "measure (\<lambda>(before, xs, lo, hi). hi - lo)") auto

declare bsearch.simps [simp del]

text \<open>Modelled from the spec: \<^verbatim>\<open>thrust.lower_bound_int(keys, seq, out)\<close>, of the
  absent module \<^verbatim>\<open>thrust_interface\<close>: for every value of \<open>seq\<close>, the search for the
  first position of \<open>keys\<close> whose entry is not below that value.\<close>

definition lower_bound_int :: "int list \<Rightarrow> int list \<Rightarrow> nat list" where
  "lower_bound_int keys seq = map (\<lambda>v. bsearch (\<lambda>x. x < v) keys 0 (length keys)) seq"

text \<open>Modelled from the spec: \<^verbatim>\<open>thrust.upper_bound_int(keys, seq, out)\<close>, of the
  absent module \<^verbatim>\<open>thrust_interface\<close>: for every value of \<open>seq\<close>, the search for the
  first position of \<open>keys\<close> whose entry is above that value.\<close>

definition upper_bound_int :: "int list \<Rightarrow> int list \<Rightarrow> nat list" where
  "upper_bound_int keys seq = map (\<lambda>v. bsearch (\<lambda>x. x \<le> v) keys 0 (length keys)) seq"

text \<open>
  The sliceset object, as far as the module reads and writes it. An attribute that the
  object does not have yet is \<open>None\<close>, so that \<^verbatim>\<open>hasattr\<close> is a test for \<open>Some\<close>
  and reading an absent attribute is an \<^verbatim>\<open>AttributeError\<close>. The attributes
  \<^verbatim>\<open>_pidx_begin\<close> and \<^verbatim>\<open>_pidx_end\<close> are the fields \<open>priv_pidx_begin\<close> and
  \<open>priv_pidx_end\<close>.
\<close>

record sliceset =
  n_slices :: nat
  slice_index_of_particle :: "int list"
  upper_bounds :: "nat list option"
  lower_bounds :: "nat list option"
  priv_pidx_begin :: "nat option"
  priv_pidx_end :: "nat option"

text \<open>Modelled from the spec: the class of the sliceset is not among the sources. Its
  properties \<^verbatim>\<open>pidx_begin\<close> and \<^verbatim>\<open>pidx_end\<close> expose the global occupied range
  that \<^verbatim>\<open>_add_bounds_to_sliceset\<close> stores in \<^verbatim>\<open>_pidx_begin\<close> and
  \<^verbatim>\<open>_pidx_end\<close> ("set those properties now").\<close>

definition pidx_begin :: "sliceset \<Rightarrow> error + nat" where
  "pidx_begin sliceset =
     (case priv_pidx_begin sliceset of None \<Rightarrow> Inl AttributeError | Some b \<Rightarrow> Inr b)"

text \<open>Modelled from the spec: the property \<^verbatim>\<open>pidx_end\<close> of the absent sliceset
  class, the end of the global occupied range.\<close>

definition pidx_end :: "sliceset \<Rightarrow> error + nat" where
  "pidx_end sliceset =
     (case priv_pidx_end sliceset of None \<Rightarrow> Inl AttributeError | Some e \<Rightarrow> Inr e)"

text \<open>
  \<^verbatim>\<open>_add_bounds_to_sliceset(sliceset)\<close>, lines 147 to 162. The object is mutated in
  place, so the function returns the sliceset it leaves behind together with its outcome:
  the two bounds are attached before \<^verbatim>\<open>lower_bounds.get()[0]\<close> can raise on an empty
  array.
\<close>

definition add_bounds_to_sliceset :: "sliceset \<Rightarrow> (error + unit) \<times> sliceset" where
  "add_bounds_to_sliceset sliceset =
     (let seq = map int [0..<n_slices sliceset];
          ub = upper_bound_int (slice_index_of_particle sliceset) seq;
          lb = lower_bound_int (slice_index_of_particle sliceset) seq;
          s1 = sliceset\<lparr>upper_bounds := Some ub, lower_bounds := Some lb\<rparr>
      in if lb = [] then (Inl IndexError, s1)
         else
           let s2 = s1\<lparr>priv_pidx_begin := Some (lb ! 0)\<rparr>
           in if ub = [] then (Inl IndexError, s2)
              else (Inr (), s2\<lparr>priv_pidx_end := Some (ub ! (length ub - 1))\<rparr>))"

text \<open>The guard that opens every operation on a sliceset (lines 132-133, 142-143,
  174-175, 197-198, 216-217): the bounds are computed when neither attribute is there.\<close>

definition bounds_guard :: "sliceset \<Rightarrow> (error + unit) \<times> sliceset" where
  "bounds_guard sliceset =
     (if upper_bounds sliceset = None \<and> lower_bounds sliceset = None
      then add_bounds_to_sliceset sliceset
      else (Inr (), sliceset))"

text \<open>Sequencing of two steps on the same object: an exception in the first ends the
  operation, with the object as the first step left it.\<close>

definition and_then ::
  "(error + 'a) \<times> sliceset \<Rightarrow> ('a \<Rightarrow> sliceset \<Rightarrow> (error + 'b) \<times> sliceset)
     \<Rightarrow> (error + 'b) \<times> sliceset" where
  "and_then r f = (case r of (Inl e, s) \<Rightarrow> (Inl e, s) | (Inr x, s) \<Rightarrow> f x s)"

text \<open>Reading the attributes \<^verbatim>\<open>sliceset.lower_bounds\<close> and
  \<^verbatim>\<open>sliceset.upper_bounds\<close>.\<close>

definition get_lower_bounds :: "sliceset \<Rightarrow> (error + nat list) \<times> sliceset" where
  "get_lower_bounds sliceset =
     (case lower_bounds sliceset of None \<Rightarrow> (Inl AttributeError, sliceset)
      | Some lb \<Rightarrow> (Inr lb, sliceset))"

definition get_upper_bounds :: "sliceset \<Rightarrow> (error + nat list) \<times> sliceset" where
  "get_upper_bounds sliceset =
     (case upper_bounds sliceset of None \<Rightarrow> (Inl AttributeError, sliceset)
      | Some ub \<Rightarrow> (Inr ub, sliceset))"

text \<open>\<^verbatim>\<open>particles_within_cuts(sliceset)\<close>, lines 127 to 135.\<close>

definition particles_within_cuts :: "sliceset \<Rightarrow> (error + nat list) \<times> sliceset" where
  "particles_within_cuts sliceset =
     and_then (bounds_guard sliceset) (\<lambda>_ s.
       case pidx_begin s of Inl e \<Rightarrow> (Inl e, s)
       | Inr b \<Rightarrow>
           (case pidx_end s of Inl e \<Rightarrow> (Inl e, s)
            | Inr e \<Rightarrow> (Inr [b..<e], s)))"

text \<open>\<^verbatim>\<open>macroparticles_per_slice(sliceset)\<close>, lines 137 to 144: the elementwise
  difference of two arrays of 32-bit integers.\<close>

definition macroparticles_per_slice :: "sliceset \<Rightarrow> (error + int list) \<times> sliceset" where
  "macroparticles_per_slice sliceset =
     and_then (bounds_guard sliceset) (\<lambda>_ s.
     and_then (get_upper_bounds s) (\<lambda>ub s.
     and_then (get_lower_bounds s) (\<lambda>lb s.
       (Inr (map2 (\<lambda>u l. int u - int l) ub lb), s))))"

section \<open>Per-slice statistics\<close>

text \<open>Modelled from the spec: the kernels \<^verbatim>\<open>sorted_mean_per_slice\<close>,
  \<^verbatim>\<open>sorted_std_per_slice\<close> and \<^verbatim>\<open>sorted_cov_per_slice\<close> are compiled from
  \<^verbatim>\<open>stats.cu\<close>, which is not among the sources. By the specification each of them
  reduces, for every slice \<open>i\<close> in \<open>[0, n_slices)\<close>, the entries of the value array in the
  half-open range \<open>[lower_bounds[i], upper_bounds[i])\<close>, independently of the other
  slices:
  \<^item> the mean is the arithmetic mean, and \<open>0\<close> for an empty slice;
  \<^item> the standard deviation is the population one (the mean first, then the mean of the
    squared deviations), and \<open>0\<close> for an empty or singleton slice;
  \<^item> the covariance carries the scaling \<open>n / (n + 1)\<close> of the whole-beam covariance, with
    \<open>n\<close> the number of particles of the slice, and is \<open>0\<close> for an empty slice.
  A read outside an array is marked \<open>IllegalAddress\<close>. The launch geometry (block and
  grid) that the wrappers pass is a parameter of the kernels; the specification gives it
  no influence on the result. The entries of slice \<open>i\<close> are read first.\<close>

definition slice_values :: "nat list \<Rightarrow> nat list \<Rightarrow> real list \<Rightarrow> nat \<Rightarrow> error + real list" where
  "slice_values lower upper u i =
     (if i < length lower \<and> i < length upper then
        (if upper ! i \<le> lower ! i then Inr []
         else if upper ! i \<le> length u
              then Inr (take (upper ! i - lower ! i) (drop (lower ! i) u))
              else Inl IllegalAddress)
      else Inl IllegalAddress)"

text \<open>The kernel as a whole yields the array of the results of the slices, unless
  one of its reads was outside an array.\<close>

fun collect :: "(error + 'a) list \<Rightarrow> error + 'a list" where
  "collect [] = Inr []"
| "collect (Inl e # rs) = Inl e"
| "collect (Inr x # rs) = (case collect rs of Inl e \<Rightarrow> Inl e | Inr xs \<Rightarrow> Inr (x # xs))"

text \<open>Modelled from the spec: the mean that the absent kernel
  \<^verbatim>\<open>sorted_mean_per_slice\<close> stores for a slice with the entries \<open>xs\<close>.\<close>

definition mean_of_slice :: "real list \<Rightarrow> real" where
  "mean_of_slice xs = (if xs = [] then 0 else sum_list xs / real (length xs))"

text \<open>Modelled from the spec: the standard deviation that the absent kernel
  \<^verbatim>\<open>sorted_std_per_slice\<close> stores for a slice with the entries \<open>xs\<close>.\<close>

definition std_of_slice :: "real list \<Rightarrow> real" where
  "std_of_slice xs =
     (if length xs \<le> 1 then 0
      else sqrt (sum_list (map (\<lambda>x. (x - mean_of_slice xs)\<^sup>2) xs) / real (length xs)))"

text \<open>Modelled from the spec: the covariance that the absent kernel
  \<^verbatim>\<open>sorted_cov_per_slice\<close> stores for a slice with the entries \<open>xs\<close> and \<open>ys\<close> of
  the two value arrays.\<close>

definition cov_of_slice :: "real list \<Rightarrow> real list \<Rightarrow> real" where
  "cov_of_slice xs ys =
     (if xs = [] then 0
      else sum_list (map2 (\<lambda>x y. (x - mean_of_slice xs) * (y - mean_of_slice ys)) xs ys)
             / real (length xs) * real (length xs) / (real (length xs) + 1))"

type_synonym launch = "(nat \<times> nat \<times> nat) \<times> (nat \<times> nat \<times> nat)"

text \<open>Modelled from the spec: the kernel \<^verbatim>\<open>sorted_mean_per_slice\<close> of the absent
  \<^verbatim>\<open>stats.cu\<close>, with the arguments in the order of the call.\<close>

definition sorted_mean_per_slice_kernel ::
  "nat list \<Rightarrow> nat list \<Rightarrow> real list \<Rightarrow> nat \<Rightarrow> launch \<Rightarrow> error + real list" where
  "sorted_mean_per_slice_kernel lower upper u n geometry =
     collect (map (\<lambda>i. case slice_values lower upper u i of
                          Inl e \<Rightarrow> Inl e | Inr xs \<Rightarrow> Inr (mean_of_slice xs)) [0..<n])"

text \<open>Modelled from the spec: the kernel \<^verbatim>\<open>sorted_std_per_slice\<close> of the absent
  \<^verbatim>\<open>stats.cu\<close>.\<close>

definition sorted_std_per_slice_kernel ::
  "nat list \<Rightarrow> nat list \<Rightarrow> real list \<Rightarrow> nat \<Rightarrow> launch \<Rightarrow> error + real list" where
  "sorted_std_per_slice_kernel lower upper u n geometry =
     collect (map (\<lambda>i. case slice_values lower upper u i of
                          Inl e \<Rightarrow> Inl e | Inr xs \<Rightarrow> Inr (std_of_slice xs)) [0..<n])"

text \<open>Modelled from the spec: the kernel \<^verbatim>\<open>sorted_cov_per_slice\<close> of the absent
  \<^verbatim>\<open>stats.cu\<close>.\<close>

definition sorted_cov_per_slice_kernel ::
  "nat list \<Rightarrow> nat list \<Rightarrow> real list \<Rightarrow> real list \<Rightarrow> nat \<Rightarrow> launch \<Rightarrow> error + real list" where
  "sorted_cov_per_slice_kernel lower upper u v n geometry =
     collect (map (\<lambda>i. case slice_values lower upper u i of
                          Inl e \<Rightarrow> Inl e
                        | Inr xs \<Rightarrow>
                            (case slice_values lower upper v i of
                               Inl e \<Rightarrow> Inl e | Inr ys \<Rightarrow> Inr (cov_of_slice xs ys))) [0..<n])"

text \<open>The launch geometry of lines 177-178 (the same in all three wrappers).\<close>

definition launch_geometry :: "sliceset \<Rightarrow> launch" where
  "launch_geometry sliceset =
     (let block = (256, 1, 1);
          grid = (max (n_slices sliceset div fst block) 1, 1, 1)
      in (block, grid))"

text \<open>\<^verbatim>\<open>sorted_mean_per_slice(sliceset, u)\<close>, lines 166 to 187.\<close>

definition sorted_mean_per_slice :: "sliceset \<Rightarrow> real list \<Rightarrow> (error + real list) \<times> sliceset" where
  "sorted_mean_per_slice sliceset u =
     and_then (bounds_guard sliceset) (\<lambda>_ s.
     and_then (get_lower_bounds s) (\<lambda>lb s.
     and_then (get_upper_bounds s) (\<lambda>ub s.
       (sorted_mean_per_slice_kernel lb ub u (n_slices s) (launch_geometry s), s))))"

text \<open>\<^verbatim>\<open>sorted_std_per_slice(sliceset, u)\<close>, lines 189 to 207.\<close>

definition sorted_std_per_slice :: "sliceset \<Rightarrow> real list \<Rightarrow> (error + real list) \<times> sliceset" where
  "sorted_std_per_slice sliceset u =
     and_then (bounds_guard sliceset) (\<lambda>_ s.
     and_then (get_lower_bounds s) (\<lambda>lb s.
     and_then (get_upper_bounds s) (\<lambda>ub s.
       (sorted_std_per_slice_kernel lb ub u (n_slices s) (launch_geometry s), s))))"

text \<open>\<^verbatim>\<open>sorted_cov_per_slice(sliceset, u, v)\<close>, lines 209 to 227.\<close>

definition sorted_cov_per_slice ::
  "sliceset \<Rightarrow> real list \<Rightarrow> real list \<Rightarrow> (error + real list) \<times> sliceset" where
  "sorted_cov_per_slice sliceset u v =
     and_then (bounds_guard sliceset) (\<lambda>_ s.
     and_then (get_lower_bounds s) (\<lambda>lb s.
     and_then (get_upper_bounds s) (\<lambda>ub s.
       (sorted_cov_per_slice_kernel lb ub u v (n_slices s) (launch_geometry s), s))))"

text \<open>
  \<^verbatim>\<open>sorted_emittance_per_slice(sliceset, u, up, dp)\<close>, lines 229 to 258. The three
  streams are synchronised before the covariances are combined, so the order of the
  calls is the order of the text. The arithmetic is elementwise on arrays of length
  \<^verbatim>\<open>n_slices\<close>.
\<close>

definition dispersion_terms ::
  "sliceset \<Rightarrow> real list \<Rightarrow> real list \<Rightarrow> real list option \<Rightarrow> real list
     \<Rightarrow> (error + (real list \<times> real list \<times> real list)) \<times> sliceset" where
  "dispersion_terms sliceset u up dp cov_u2 =
     (case dp of
        Some d \<Rightarrow>
          and_then (sorted_cov_per_slice sliceset u d) (\<lambda>cov_u_dp s.
          and_then (sorted_cov_per_slice s up d) (\<lambda>cov_up_dp s.
          and_then (sorted_cov_per_slice s d d) (\<lambda>cov_dp2 s.
            (Inr (cov_u_dp, cov_up_dp, cov_dp2), s))))
      | None \<Rightarrow>
          (Inr (map (\<lambda>_. 0) cov_u2, map (\<lambda>_. 0) cov_u2, map (\<lambda>_. 0 + 1) cov_u2),
           sliceset))"

definition elementwise :: "(float64 \<Rightarrow> float64 \<Rightarrow> float64) \<Rightarrow> float64 list \<Rightarrow> float64 list \<Rightarrow> float64 list" where
  "elementwise f xs ys = map2 f xs ys"

definition sorted_emittance_per_slice ::
  "sliceset \<Rightarrow> real list \<Rightarrow> real list \<Rightarrow> real list option \<Rightarrow> (error + float64 list) \<times> sliceset" where
  "sorted_emittance_per_slice sliceset u up dp =
     and_then (sorted_cov_per_slice sliceset u u) (\<lambda>cov_u2 s.
     and_then (sorted_cov_per_slice s up up) (\<lambda>cov_up2 s.
     and_then (sorted_cov_per_slice s u up) (\<lambda>cov_u_up s.
     and_then (dispersion_terms s u up dp cov_u2) (\<lambda>(cov_u_dp, cov_up_dp, cov_dp2) s.
       let c_u2 = map Some cov_u2; c_up2 = map Some cov_up2; c_u_up = map Some cov_u_up;
           c_u_dp = map Some cov_u_dp; c_up_dp = map Some cov_up_dp;
           c_dp2 = map Some cov_dp2;
           sigma11 = elementwise fsub c_u2
                       (elementwise fdiv (elementwise fmul c_u_dp c_u_dp) c_dp2);
           sigma12 = elementwise fsub c_u_up
                       (elementwise fdiv (elementwise fmul c_u_dp c_up_dp) c_dp2);
           sigma22 = elementwise fsub c_up2
                       (elementwise fdiv (elementwise fmul c_up_dp c_up_dp) c_dp2)
       in (Inr (map fsqrt (elementwise fsub (elementwise fmul sigma11 sigma22)
                                            (elementwise fmul sigma12 sigma12))), s)))))"

text \<open>
  A client of a sliceset issues statistics requests one after the other against the
  same object. \<open>perform\<close> dispatches one request to the operation of the module, and
  \<open>run\<close> is the sliceset left behind by a sequence of requests.
\<close>

datatype request =
    MeanPerSlice "real list"
  | StdPerSlice "real list"
  | CovPerSlice "real list" "real list"
  | ParticlesWithinCuts
  | MacroparticlesPerSlice

datatype answer = Values "real list" | Indices "nat list" | Counts "int list"

definition answered :: "('a \<Rightarrow> answer) \<Rightarrow> (error + 'a) \<times> sliceset \<Rightarrow> (error + answer) \<times> sliceset" where
  "answered c r = (case r of (Inl e, s) \<Rightarrow> (Inl e, s) | (Inr x, s) \<Rightarrow> (Inr (c x), s))"

fun perform :: "request \<Rightarrow> sliceset \<Rightarrow> (error + answer) \<times> sliceset" where
  "perform (MeanPerSlice u) s = answered Values (sorted_mean_per_slice s u)"
| "perform (StdPerSlice u) s = answered Values (sorted_std_per_slice s u)"
| "perform (CovPerSlice u v) s = answered Values (sorted_cov_per_slice s u v)"
| "perform ParticlesWithinCuts s = answered Indices (particles_within_cuts s)"
| "perform MacroparticlesPerSlice s = answered Counts (macroparticles_per_slice s)"

fun run :: "request list \<Rightarrow> sliceset \<Rightarrow> sliceset" where
  "run [] s = s"
| "run (r # rs) s = run rs (snd (perform r s))"

text \<open>A sliceset to which no operation has been applied yet has none of the derived
  attributes.\<close>

definition fresh :: "sliceset \<Rightarrow> bool" where
  "fresh s \<longleftrightarrow> upper_bounds s = None \<and> lower_bounds s = None
     \<and> priv_pidx_begin s = None \<and> priv_pidx_end s = None"

text \<open>The first position of a list at which a property holds (the length of the list
  when there is none), and the values of the particles that hold a given slice index.\<close>

definition first_position :: "('a \<Rightarrow> bool) \<Rightarrow> 'a list \<Rightarrow> nat" where
  "first_position P xs = length (takeWhile (\<lambda>x. \<not> P x) xs)"

definition values_of_slice :: "int list \<Rightarrow> real list \<Rightarrow> nat \<Rightarrow> real list" where
  "values_of_slice idx u i = map snd (filter (\<lambda>(s, x). s = int i) (zip idx u))"

section \<open>Sorting and permuting device arrays\<close>

text \<open>
  \<^verbatim>\<open>argsort\<close> and \<^verbatim>\<open>apply_permutation\<close> hand device arrays to routines that
  write into their arguments, so the arrays live in a store: a list of arrays, an array
  being addressed by its position, and an allocation appending to the list. An array
  has the element type that its \<^verbatim>\<open>dtype\<close> names (of which the module reads
  \<^verbatim>\<open>itemsize\<close> and \<^verbatim>\<open>kind\<close>) and its entries; the entries of an array of
  integers are whole numbers.
\<close>

record dtype_t =
  itemsize :: nat
  kind :: char

record gpuarray =
  dtype :: dtype_t
  elems :: "real list"

type_synonym store = "gpuarray list"

definition float64 :: dtype_t where
  "float64 = \<lparr>itemsize = 8, kind = CHR ''f''\<rparr>"

definition int32 :: dtype_t where
  "int32 = \<lparr>itemsize = 4, kind = CHR ''i''\<rparr>"

definition float32 :: dtype_t where
  "float32 = \<lparr>itemsize = 4, kind = CHR ''f''\<rparr>"

text \<open>\<^verbatim>\<open>pycuda.gpuarray.empty(shape, dtype)\<close> and \<^verbatim>\<open>empty_like\<close> allocate an
  array whose contents are not initialised (written as zeros here: both callers
  overwrite every entry before the array is read); \<^verbatim>\<open>copy()\<close> allocates an array
  with the contents of its source.\<close>

definition gpuarray_empty :: "store \<Rightarrow> nat \<Rightarrow> dtype_t \<Rightarrow> nat \<times> store" where
  "gpuarray_empty h n dt = (length h, h @ [\<lparr>dtype = dt, elems = replicate n 0\<rparr>])"

definition gpuarray_empty_like :: "store \<Rightarrow> nat \<Rightarrow> nat \<times> store" where
  "gpuarray_empty_like h a = gpuarray_empty h (length (elems (h ! a))) (dtype (h ! a))"

definition gpuarray_copy :: "store \<Rightarrow> nat \<Rightarrow> nat \<times> store" where
  "gpuarray_copy h a = (length h, h @ [h ! a])"

text \<open>Modelled from the spec: the module \<^verbatim>\<open>thrust_interface\<close> is not among the
  sources. \<^verbatim>\<open>thrust.get_sort_perm_double(keys, permutation)\<close> and its
  \<^verbatim>\<open>_int\<close> twin sort the key array in place and write into the second array the
  permutation that sorts it (the docstring of \<^verbatim>\<open>argsort\<close>: "the permutation
  required to sort the array"); equal keys keep their order here.
  \<^verbatim>\<open>thrust.apply_sort_perm_double(array, tmp, permutation)\<close> and its twin write
  \<^verbatim>\<open>array[permutation]\<close> into \<^verbatim>\<open>tmp\<close> (the docstring of
  \<^verbatim>\<open>apply_permutation\<close>), one entry for every entry of the array; a read outside
  the permutation or outside the array is marked \<open>IllegalAddress\<close>. First, the
  permutation that sorts a list of keys.\<close>

definition sort_permutation :: "real list \<Rightarrow> nat list" where
  "sort_permutation ks = map snd (sort_key fst (zip ks [0..<length ks]))"

text \<open>Modelled from the spec: \<^verbatim>\<open>thrust.get_sort_perm_double\<close> and
  \<^verbatim>\<open>thrust.get_sort_perm_int\<close> of the absent module \<^verbatim>\<open>thrust_interface\<close>; both
  arguments are written.\<close>

definition thrust_get_sort_perm :: "store \<Rightarrow> nat \<Rightarrow> nat \<Rightarrow> store" where
  "thrust_get_sort_perm h keys permutation =
     (let ks = elems (h ! keys);
          h1 = h[keys := (h ! keys)\<lparr>elems := sort ks\<rparr>]
      in h1[permutation := (h1 ! permutation)\<lparr>elems := map real (sort_permutation ks)\<rparr>])"

text \<open>An entry of an array of integers read as an index, and whether it is one of an
  array of \<open>n\<close> entries.\<close>

definition index_of :: "real \<Rightarrow> nat" where
  "index_of x = nat \<lfloor>x\<rfloor>"

definition valid_index :: "nat \<Rightarrow> real \<Rightarrow> bool" where
  "valid_index n x \<longleftrightarrow> 0 \<le> x \<and> x < real n"

text \<open>Modelled from the spec: \<^verbatim>\<open>thrust.apply_sort_perm_double\<close> and
  \<^verbatim>\<open>thrust.apply_sort_perm_int\<close> of the absent module \<^verbatim>\<open>thrust_interface\<close>; only
  \<^verbatim>\<open>tmp\<close> is written.\<close>

definition thrust_apply_sort_perm :: "store \<Rightarrow> nat \<Rightarrow> nat \<Rightarrow> nat \<Rightarrow> error + store" where
  "thrust_apply_sort_perm h array tmp permutation =
     (let src = elems (h ! array);
          p = elems (h ! permutation);
          n = length src
      in if length p < n then Inl IllegalAddress
         else if list_all (valid_index n) (take n p)
              then Inr (h[tmp := (h ! tmp)\<lparr>elems := map (\<lambda>i. src ! index_of (p ! i)) [0..<n]\<rparr>])
              else Inl IllegalAddress)"

text \<open>
  \<^verbatim>\<open>argsort(to_sort)\<close>, lines 85 to 103. In the last branch the first statement is
  \<^verbatim>\<open>print array.dtype\<close>; the function has no variable \<^verbatim>\<open>array\<close> (its parameter is
  \<^verbatim>\<open>to_sort\<close>) and the module has no global of that name, so the statement raises
  \<^verbatim>\<open>NameError\<close> and the \<^verbatim>\<open>raise TypeError\<close> below it is not reached.
\<close>

definition argsort :: "store \<Rightarrow> nat \<Rightarrow> (error + nat) \<times> store" where
  "argsort h to_sort =
     (let dt = dtype (h ! to_sort);
          (permutation, h1) = gpuarray_empty h (length (elems (h ! to_sort))) int32
      in if itemsize dt = 8 \<and> kind dt = CHR ''f'' then
           (let (c, h2) = gpuarray_copy h1 to_sort
            in (Inr permutation, thrust_get_sort_perm h2 c permutation))
         else if itemsize dt = 4 \<and> kind dt = CHR ''i'' then
           (let (c, h2) = gpuarray_copy h1 to_sort
            in (Inr permutation, thrust_get_sort_perm h2 c permutation))
         else (Inl NameError, h1))"

text \<open>\<^verbatim>\<open>apply_permutation(array, permutation)\<close>, lines 105 to 125.\<close>

definition apply_permutation :: "store \<Rightarrow> nat \<Rightarrow> nat \<Rightarrow> (error + nat) \<times> store" where
  "apply_permutation h array permutation =
     (if \<not> (itemsize (dtype (h ! permutation)) = 4 \<and> kind (dtype (h ! permutation)) = CHR ''i'')
      then (Inl AssertionError, h)
      else
        let (tmp, h1) = gpuarray_empty_like h array;
            dt = dtype (h ! array)
        in if itemsize dt = 8 \<and> kind dt = CHR ''f'' then
             (case thrust_apply_sort_perm h1 array tmp permutation of
                Inl e \<Rightarrow> (Inl e, h1) | Inr h2 \<Rightarrow> (Inr tmp, h2))
           else if itemsize dt = 4 \<and> kind dt = CHR ''i'' then
             (case thrust_apply_sort_perm h1 array tmp permutation of
                Inl e \<Rightarrow> (Inl e, h1) | Inr h2 \<Rightarrow> (Inr tmp, h2))
           else (Inl TypeError, h1))"

text \<open>What the two functions support, and what it is for an array \<open>q\<close> of indices to
  be the inverse of the permutation \<open>p\<close> of \<open>[0, n)\<close>.\<close>

definition supported :: "dtype_t \<Rightarrow> bool" where
  "supported dt \<longleftrightarrow> dt = float64 \<or> dt = int32"

definition is_permutation :: "nat list \<Rightarrow> bool" where
  "is_permutation p \<longleftrightarrow> mset p = mset [0..<length p]"

definition inverse_permutation :: "nat list \<Rightarrow> nat list" where
  "inverse_permutation p = map (\<lambda>j. first_position (\<lambda>k. k = j) p) [0..<length p]"

text \<open>The positions that the two searches are specified to find for slice \<open>i\<close>.\<close>

definition lower_of :: "int list \<Rightarrow> nat \<Rightarrow> nat" where
  "lower_of idx i = first_position (\<lambda>x. int i \<le> x) idx"

definition upper_of :: "int list \<Rightarrow> nat \<Rightarrow> nat" where
  "upper_of idx i = first_position (\<lambda>x. int i < x) idx"

text \<open>Two notions for the correctness of the search: the predicate \<open>before\<close> is
  closed towards the front of the list, and the position \<open>r\<close> separates the entries that
  satisfy it from those that do not.\<close>

definition downward :: "(int \<Rightarrow> bool) \<Rightarrow> int list \<Rightarrow> bool" where
  "downward before xs \<longleftrightarrow>
     (\<forall>i j. i \<le> j \<and> j < length xs \<and> before (xs ! j) \<longrightarrow> before (xs ! i))"

definition splits_at :: "(int \<Rightarrow> bool) \<Rightarrow> int list \<Rightarrow> nat \<Rightarrow> bool" where
  "splits_at before xs r \<longleftrightarrow>
     r \<le> length xs \<and> (\<forall>j<r. before (xs ! j))
       \<and> (\<forall>j. r \<le> j \<and> j < length xs \<longrightarrow> \<not> before (xs ! j))"

text \<open>Two slicesets to which no operation has been applied yet: six particles in three
  slices, and five particles of which one lies below and one above the three slices, the
  middle slice being empty.\<close>

definition six_particles :: sliceset where
  "six_particles = \<lparr>n_slices = 3, slice_index_of_particle = [0, 0, 1, 1, 1, 2],
     upper_bounds = None, lower_bounds = None, priv_pidx_begin = None, priv_pidx_end = None\<rparr>"

definition five_particles :: sliceset where
  "five_particles = \<lparr>n_slices = 3, slice_index_of_particle = [- 1, 0, 0, 2, 3],
     upper_bounds = None, lower_bounds = None, priv_pidx_begin = None, priv_pidx_end = None\<rparr>"

text \<open>The sliceset with the bounds of its slice index array and the global occupied
  range attached.\<close>

definition equipped :: "sliceset \<Rightarrow> sliceset" where
  "equipped s =
     (let seq = map int [0..<n_slices s];
          ub = upper_bound_int (slice_index_of_particle s) seq;
          lb = lower_bound_int (slice_index_of_particle s) seq
      in s\<lparr>upper_bounds := Some ub, lower_bounds := Some lb,
            priv_pidx_begin := Some (lb ! 0), priv_pidx_end := Some (ub ! (length ub - 1))\<rparr>)"

text \<open>The covariance of slice \<open>i\<close> as the specification words it: the covariance of the
  values of its particles, and \<open>0\<close> when it has none.\<close>

definition slice_cov :: "int list \<Rightarrow> real list \<Rightarrow> real list \<Rightarrow> nat \<Rightarrow> real" where
  "slice_cov idx u v i =
     (if values_of_slice idx u i = [] then 0
      else cov (values_of_slice idx u i) (values_of_slice idx v i))"

text \<open>Three particles in the first of two slices.\<close>

definition three_particles :: sliceset where
  "three_particles = \<lparr>n_slices = 2, slice_index_of_particle = [0, 0, 0],
     upper_bounds = None, lower_bounds = None, priv_pidx_begin = None, priv_pidx_end = None\<rparr>"

text \<open>Two stores: an array of doubles with a permutation of its indices and the
  inverse of that permutation, and an array of single-precision floats with a
  permutation.\<close>

definition double_store :: store where
  "double_store = [\<lparr>dtype = float64, elems = [3, 1, 2]\<rparr>,
                   \<lparr>dtype = int32, elems = [2, 0, 1]\<rparr>,
                   \<lparr>dtype = int32, elems = [1, 2, 0]\<rparr>]"

definition single_store :: store where
  "single_store = [\<lparr>dtype = float32, elems = [3 / 2, 1 / 2]\<rparr>,
                   \<lparr>dtype = int32, elems = [1, 0]\<rparr>]"

section \<open>Properties of the whole-beam statistics\<close>

lemma map2_nth_conv:
  "length a = length b \<Longrightarrow>
   map2 f (map g a) (map h b) = map (\<lambda>i. f (g (a ! i)) (h (b ! i))) [0..<length a]"
  by (rule nth_equalityI) simp_all

lemma covariance_eq_cov:
  assumes "a \<noteq> []" and "length a = length b"
  shows "covariance a b = Some (cov a b)"
proof -
  define p where "p = map (\<lambda>i. (a ! i - mean a) * (b ! i - mean b)) [0..<length a]"
  from assms have b: "b \<noteq> []" by auto
  have ma: "gpu_mean a = Some (mean a)"
    using assms(1) by (simp add: gpu_mean_def mean_def)
  have mb: "gpu_mean b = Some (mean b)"
    using b by (simp add: gpu_mean_def mean_def)
  have prod: "map2 (*) (map (\<lambda>e. e - mean a) a) (map (\<lambda>e. e - mean b) b) = p"
    unfolding p_def using map2_nth_conv [OF assms(2)] .
  have "p \<noteq> []"
    using assms(1) by (simp add: p_def)
  then have mp: "gpu_mean p = Some (mean p)"
    by (simp add: gpu_mean_def mean_def)
  have "covariance a b = Some (mean p * real (length a) / (real (length a) + 1))"
    by (simp add: covariance_def Let_def ma mb prod mp)
  also have "mean p * real (length a) / (real (length a) + 1) = cov a b"
    by (simp add: cov_def p_def add.commute)
  finally show ?thesis .
qed

lemma covariance_empty: "covariance [] b = None"
  by (simp add: covariance_def gpu_mean_def)

lemma cov_sym: "length a = length b \<Longrightarrow> cov a b = cov b a"
  by (simp add: cov_def mult.commute)

section \<open>Properties of the slice bounds\<close>

lemma bsearch_invariant:
  "downward before xs \<Longrightarrow> lo \<le> hi \<Longrightarrow> hi \<le> length xs \<Longrightarrow> (\<forall>j<lo. before (xs ! j)) \<Longrightarrow>
     (\<forall>j. hi \<le> j \<and> j < length xs \<longrightarrow> \<not> before (xs ! j)) \<Longrightarrow>
     splits_at before xs (bsearch before xs lo hi)"
proof (induction before xs lo hi rule: bsearch.induct)
  case (1 before xs lo hi)
  show ?case
  proof (cases "lo < hi")
    case False
    with "1.prems" have "lo = hi" by simp
    moreover have "bsearch before xs lo hi = lo"
      using False by (subst bsearch.simps) simp
    ultimately show ?thesis using "1.prems" by (simp add: splits_at_def)
  next
    case True
    define mid where "mid = lo + (hi - lo) div 2"
    have mid: "lo \<le> mid" "mid < hi" using True by (auto simp: mid_def)
    then have midlen: "mid < length xs" using "1.prems" by simp
    show ?thesis
    proof (cases "before (xs ! mid)")
      case T: True
      have eq: "bsearch before xs lo hi = bsearch before xs (Suc mid) hi"
        using True T by (subst bsearch.simps) (simp add: mid_def)
      have below: "\<forall>j<Suc mid. before (xs ! j)"
      proof (intro allI impI)
        fix j assume "j < Suc mid"
        then have "j \<le> mid" by simp
        then show "before (xs ! j)"
          using T midlen "1.prems"(1) unfolding downward_def by blast
      qed
      have "splits_at before xs (bsearch before xs (Suc mid) hi)"
        using "1.IH"(1)[OF True T[unfolded mid_def]] mid "1.prems" below
        unfolding mid_def[symmetric] by simp
      then show ?thesis using eq by simp
    next
      case F: False
      have eq: "bsearch before xs lo hi = bsearch before xs lo mid"
        using True F by (subst bsearch.simps) (simp add: mid_def)
      have above: "\<forall>j. mid \<le> j \<and> j < length xs \<longrightarrow> \<not> before (xs ! j)"
      proof (intro allI impI)
        fix j assume "mid \<le> j \<and> j < length xs"
        then show "\<not> before (xs ! j)"
          using F "1.prems"(1) unfolding downward_def by blast
      qed
      have "splits_at before xs (bsearch before xs lo mid)"
        using "1.IH"(2)[OF True F[unfolded mid_def]] mid "1.prems" above
        unfolding mid_def[symmetric] by simp
      then show ?thesis using eq by simp
    qed
  qed
qed

lemma splits_at_takeWhile:
  assumes "splits_at before xs r"
  shows "r = length (takeWhile before xs)"
proof -
  have "takeWhile before xs = take r xs"
    using assms by (intro takeWhile_eq_take_P_nth) (auto simp: splits_at_def)
  then show ?thesis using assms by (simp add: splits_at_def)
qed

lemma bsearch_takeWhile:
  assumes "downward before xs"
  shows "bsearch before xs 0 (length xs) = length (takeWhile before xs)"
proof -
  have "splits_at before xs (bsearch before xs 0 (length xs))"
    by (rule bsearch_invariant [OF assms]) auto
  then show ?thesis by (rule splits_at_takeWhile)
qed

lemma sorted_downward_less: "sorted xs \<Longrightarrow> downward (\<lambda>x. x < v) xs"
  unfolding downward_def using sorted_nth_mono by fastforce

lemma sorted_downward_le: "sorted xs \<Longrightarrow> downward (\<lambda>x. x \<le> v) xs"
  unfolding downward_def using sorted_nth_mono by fastforce

lemma bsearch_less_first_position:
  "sorted xs \<Longrightarrow> bsearch (\<lambda>x. x < v) xs 0 (length xs) = first_position (\<lambda>x. x \<ge> v) xs"
  by (simp add: bsearch_takeWhile sorted_downward_less first_position_def not_le)

lemma bsearch_le_first_position:
  "sorted xs \<Longrightarrow> bsearch (\<lambda>x. x \<le> v) xs 0 (length xs) = first_position (\<lambda>x. x > v) xs"
  by (simp add: bsearch_takeWhile sorted_downward_le first_position_def not_less)

lemma splits_at_lower_of: "sorted idx \<Longrightarrow> splits_at (\<lambda>x. x < int i) idx (lower_of idx i)"
proof -
  assume s: "sorted idx"
  have "splits_at (\<lambda>x. x < int i) idx (bsearch (\<lambda>x. x < int i) idx 0 (length idx))"
    by (rule bsearch_invariant [OF sorted_downward_less [OF s]]) auto
  then show ?thesis
    using bsearch_less_first_position [OF s, of "int i"] by (simp add: lower_of_def)
qed

lemma splits_at_upper_of: "sorted idx \<Longrightarrow> splits_at (\<lambda>x. x \<le> int i) idx (upper_of idx i)"
proof -
  assume s: "sorted idx"
  have "splits_at (\<lambda>x. x \<le> int i) idx (bsearch (\<lambda>x. x \<le> int i) idx 0 (length idx))"
    by (rule bsearch_invariant [OF sorted_downward_le [OF s]]) auto
  then show ?thesis
    using bsearch_le_first_position [OF s, of "int i"] by (simp add: upper_of_def)
qed

lemma lower_bound_int_sorted:
  "sorted idx \<Longrightarrow> lower_bound_int idx (map int [0..<n]) = map (lower_of idx) [0..<n]"
  by (simp add: lower_bound_int_def lower_of_def bsearch_less_first_position)

lemma upper_bound_int_sorted:
  "sorted idx \<Longrightarrow> upper_bound_int idx (map int [0..<n]) = map (upper_of idx) [0..<n]"
  by (simp add: upper_bound_int_def upper_of_def bsearch_le_first_position)

lemma upper_of_le_length: "upper_of idx i \<le> length idx"
  by (simp add: upper_of_def first_position_def length_takeWhile_le)

lemma lower_of_le_length: "lower_of idx i \<le> length idx"
  by (simp add: lower_of_def first_position_def length_takeWhile_le)

lemma range_holds_index:
  assumes "sorted idx" and "j < length idx"
  shows "(lower_of idx i \<le> j \<and> j < upper_of idx i) = (idx ! j = int i)"
  using splits_at_lower_of [OF assms(1), of i] splits_at_upper_of [OF assms(1), of i] assms(2)
  unfolding splits_at_def
  by (metis linorder_not_le order_antisym_conv order_le_less)

lemma lower_le_upper:
  assumes "sorted idx"
  shows "lower_of idx i \<le> upper_of idx i"
proof (rule ccontr)
  assume "\<not> lower_of idx i \<le> upper_of idx i"
  then have lt: "upper_of idx i < lower_of idx i" by simp
  then have len: "upper_of idx i < length idx"
    using lower_of_le_length [of idx i] by simp
  have "idx ! upper_of idx i < int i"
    using splits_at_lower_of [OF assms, of i] lt by (simp add: splits_at_def)
  moreover have "\<not> idx ! upper_of idx i \<le> int i"
    using splits_at_upper_of [OF assms, of i] len by (simp add: splits_at_def)
  ultimately show False by simp
qed

lemma ranges_disjoint:
  assumes "sorted idx" and "k \<noteq> i"
  shows "{lower_of idx i..<upper_of idx i} \<inter> {lower_of idx k..<upper_of idx k} = {}"
proof (rule ccontr)
  assume "{lower_of idx i..<upper_of idx i} \<inter> {lower_of idx k..<upper_of idx k} \<noteq> {}"
  then obtain j where "j \<in> {lower_of idx i..<upper_of idx i} \<inter> {lower_of idx k..<upper_of idx k}"
    by blast
  then have j: "lower_of idx i \<le> j" "j < upper_of idx i"
      "lower_of idx k \<le> j" "j < upper_of idx k" by simp_all
  then have len: "j < length idx" using upper_of_le_length [of idx i] by simp
  have "idx ! j = int i" using range_holds_index [OF assms(1) len, of i] j by simp
  moreover have "idx ! j = int k" using range_holds_index [OF assms(1) len, of k] j by simp
  ultimately show False using assms(2) by simp
qed

lemma upper_is_next_lower: "upper_of idx i = lower_of idx (Suc i)"
proof -
  have "(\<lambda>x. int i < x) = (\<lambda>x. int (Suc i) \<le> x)" by auto
  then show ?thesis by (simp add: upper_of_def lower_of_def)
qed

lemma add_bounds_attaches:
  "lower_bounds (snd (add_bounds_to_sliceset s))
     = Some (lower_bound_int (slice_index_of_particle s) (map int [0..<n_slices s]))"
  "upper_bounds (snd (add_bounds_to_sliceset s))
     = Some (upper_bound_int (slice_index_of_particle s) (map int [0..<n_slices s]))"
  by (simp_all add: add_bounds_to_sliceset_def Let_def)

lemma add_bounds_sorted:
  assumes "sorted (slice_index_of_particle s)"
  shows "lower_bounds (snd (add_bounds_to_sliceset s))
           = Some (map (lower_of (slice_index_of_particle s)) [0..<n_slices s])"
    and "upper_bounds (snd (add_bounds_to_sliceset s))
           = Some (map (upper_of (slice_index_of_particle s)) [0..<n_slices s])"
  using assms
  by (simp_all only: add_bounds_attaches lower_bound_int_sorted upper_bound_int_sorted)

text \<open>
  Claim C2. For an ascending slice index array and any number of slices, the boundary
  resolver \<^verbatim>\<open>_add_bounds_to_sliceset\<close> attaches as \<open>lower_bounds[i]\<close> the first
  position whose index is \<open>\<ge> i\<close> and as \<open>upper_bounds[i]\<close> the first position whose index
  is \<open>> i\<close>, for every slice \<open>i\<close> in \<open>[0, n_slices)\<close>. Hence the lower bound is at most the
  upper bound, a position lies in the half-open range of slice \<open>i\<close> exactly when it holds
  the index \<open>i\<close>, the ranges of distinct slices are disjoint, and the upper bound of a
  slice is the lower bound of the next one.
\<close>

theorem boundary_resolver_bounds:
  assumes "sorted (slice_index_of_particle s)"
  shows "lower_bounds (snd (add_bounds_to_sliceset s))
           = Some (map (lower_of (slice_index_of_particle s)) [0..<n_slices s])
       \<and> upper_bounds (snd (add_bounds_to_sliceset s))
           = Some (map (upper_of (slice_index_of_particle s)) [0..<n_slices s])
       \<and> (\<forall>i<n_slices s.
            lower_of (slice_index_of_particle s) i \<le> upper_of (slice_index_of_particle s) i
          \<and> upper_of (slice_index_of_particle s) i \<le> length (slice_index_of_particle s)
          \<and> (\<forall>j<length (slice_index_of_particle s).
                (lower_of (slice_index_of_particle s) i \<le> j
                   \<and> j < upper_of (slice_index_of_particle s) i)
                = (slice_index_of_particle s ! j = int i))
          \<and> (\<forall>k<n_slices s. k \<noteq> i \<longrightarrow>
                {lower_of (slice_index_of_particle s) i..<upper_of (slice_index_of_particle s) i}
                \<inter> {lower_of (slice_index_of_particle s) k..<upper_of (slice_index_of_particle s) k}
                = {})
          \<and> (Suc i < n_slices s \<longrightarrow>
                upper_of (slice_index_of_particle s) i
                = lower_of (slice_index_of_particle s) (Suc i)))"
  using add_bounds_sorted [OF assms] lower_le_upper [OF assms] upper_of_le_length
    range_holds_index [OF assms] ranges_disjoint [OF assms] upper_is_next_lower
  by simp

theorem boundary_resolver_bounds_witness:
  "sorted (slice_index_of_particle five_particles)
   \<and> lower_bounds (snd (add_bounds_to_sliceset five_particles)) = Some [1, 3, 3]
   \<and> upper_bounds (snd (add_bounds_to_sliceset five_particles)) = Some [3, 3, 4]
   \<and> lower_of [- 1, 0, 0, 2, 3] 1 \<le> upper_of [- 1, 0, 0, 2, 3] 1
   \<and> upper_of [- 1, 0, 0, 2, 3] 1 = lower_of [- 1, 0, 0, 2, 3] 2"
proof -
  have srt: "sorted (slice_index_of_particle five_particles)"
    by (simp add: five_particles_def)
  have vals: "map (lower_of [- 1, 0, 0, 2, 3]) [0..<3] = [1, 3, 3]"
    "map (upper_of [- 1, 0, 0, 2, 3]) [0..<3] = [3, 3, 4]"
    by (simp_all add: lower_of_def upper_of_def first_position_def upt_conv_Cons)
  note res = boundary_resolver_bounds [OF srt]
  have idx: "slice_index_of_particle five_particles = [- 1, 0, 0, 2, 3]"
    and n: "n_slices five_particles = 3"
    by (simp_all add: five_particles_def)
  have "lower_bounds (snd (add_bounds_to_sliceset five_particles)) = Some [1, 3, 3]"
    using res vals unfolding idx n by simp
  moreover have "upper_bounds (snd (add_bounds_to_sliceset five_particles)) = Some [3, 3, 4]"
    using res vals unfolding idx n by simp
  moreover have "lower_of [- 1, 0, 0, 2, 3] 1 \<le> upper_of [- 1, 0, 0, 2, 3] 1
      \<and> upper_of [- 1, 0, 0, 2, 3] 1 = lower_of [- 1, 0, 0, 2, 3] 2"
  proof -
    from res have "\<forall>i<3. lower_of [- 1, 0, 0, 2, 3] i \<le> upper_of [- 1, 0, 0, 2, 3] i
        \<and> (Suc i < 3 \<longrightarrow> upper_of [- 1, 0, 0, 2, 3] i = lower_of [- 1, 0, 0, 2, 3] (Suc i))"
      unfolding idx n by blast
    from this [rule_format, of 1] show ?thesis
      by (simp add: numeral_2_eq_2)
  qed
  ultimately show ?thesis using srt by blast
qed

section \<open>Properties of the operations on a sliceset\<close>

lemma length_lower_bound_int [simp]: "length (lower_bound_int keys seq) = length seq"
  by (simp add: lower_bound_int_def)

lemma length_upper_bound_int [simp]: "length (upper_bound_int keys seq) = length seq"
  by (simp add: upper_bound_int_def)

lemma add_bounds_equipped:
  "0 < n_slices s \<Longrightarrow> add_bounds_to_sliceset s = (Inr (), equipped s)"
  by (simp add: add_bounds_to_sliceset_def equipped_def Let_def
      flip: length_0_conv)

lemma bounds_guard_fresh:
  "fresh s \<Longrightarrow> 0 < n_slices s \<Longrightarrow> bounds_guard s = (Inr (), equipped s)"
  by (simp add: bounds_guard_def fresh_def add_bounds_equipped)

lemma bounds_guard_attached:
  "upper_bounds s = Some ub \<Longrightarrow> lower_bounds s = Some lb \<Longrightarrow> bounds_guard s = (Inr (), s)"
  by (simp add: bounds_guard_def)

lemma equipped_fields [simp]:
  "n_slices (equipped s) = n_slices s"
  "slice_index_of_particle (equipped s) = slice_index_of_particle s"
  "upper_bounds (equipped s)
     = Some (upper_bound_int (slice_index_of_particle s) (map int [0..<n_slices s]))"
  "lower_bounds (equipped s)
     = Some (lower_bound_int (slice_index_of_particle s) (map int [0..<n_slices s]))"
  "priv_pidx_begin (equipped s)
     = Some (lower_bound_int (slice_index_of_particle s) (map int [0..<n_slices s]) ! 0)"
  "priv_pidx_end (equipped s)
     = Some (upper_bound_int (slice_index_of_particle s) (map int [0..<n_slices s])
               ! (n_slices s - 1))"
  by (simp_all add: equipped_def Let_def)

lemma sorted_mean_per_slice_unfold:
  assumes "bounds_guard s = (Inr (), s1)" "lower_bounds s1 = Some lb" "upper_bounds s1 = Some ub"
  shows "sorted_mean_per_slice s u
     = (sorted_mean_per_slice_kernel lb ub u (n_slices s1) (launch_geometry s1), s1)"
  using assms
  by (simp add: sorted_mean_per_slice_def and_then_def get_lower_bounds_def get_upper_bounds_def)

lemma sorted_std_per_slice_unfold:
  assumes "bounds_guard s = (Inr (), s1)" "lower_bounds s1 = Some lb" "upper_bounds s1 = Some ub"
  shows "sorted_std_per_slice s u
     = (sorted_std_per_slice_kernel lb ub u (n_slices s1) (launch_geometry s1), s1)"
  using assms
  by (simp add: sorted_std_per_slice_def and_then_def get_lower_bounds_def get_upper_bounds_def)

lemma sorted_cov_per_slice_unfold:
  assumes "bounds_guard s = (Inr (), s1)" "lower_bounds s1 = Some lb" "upper_bounds s1 = Some ub"
  shows "sorted_cov_per_slice s u v
     = (sorted_cov_per_slice_kernel lb ub u v (n_slices s1) (launch_geometry s1), s1)"
  using assms
  by (simp add: sorted_cov_per_slice_def and_then_def get_lower_bounds_def get_upper_bounds_def)

section \<open>The end-to-end scenario\<close>

lemma six_bounds:
  "lower_bound_int [0, 0, 1, 1, 1, 2] (map int [0..<3]) = [0, 2, 5]"
  "upper_bound_int [0, 0, 1, 1, 1, 2] (map int [0..<3]) = [2, 5, 6]"
  by code_simp+

lemma six_fresh: "fresh six_particles" "n_slices six_particles = 3"
  "slice_index_of_particle six_particles = [0, 0, 1, 1, 1, 2]"
  by (simp_all add: fresh_def six_particles_def)

lemma six_guard: "bounds_guard six_particles = (Inr (), equipped six_particles)"
  by (rule bounds_guard_fresh) (simp_all add: six_fresh)

lemma six_slices:
  "slice_values [0, 2, 5] [2, 5, 6] [1, 3, 2, 4, 6, 10] 0 = Inr [1, 3]"
  "slice_values [0, 2, 5] [2, 5, 6] [1, 3, 2, 4, 6, 10] 1 = Inr [2, 4, 6]"
  "slice_values [0, 2, 5] [2, 5, 6] [1, 3, 2, 4, 6, 10] 2 = Inr [10]"
  by (simp_all add: slice_values_def numeral_2_eq_2)

lemma six_slice_1:
  "slice_values [0, 2, 5] [2, 5, 6] [1, 3, 2, 4, 6, 10] (Suc 0) = Inr [2, 4, 6]"
  using six_slices(2) by simp

lemma upt3: "[0..<3] = [0, 1, 2]"
  by (simp add: upt_conv_Cons numeral_3_eq_3 numeral_2_eq_2)

lemma six_mean:
  "fst (sorted_mean_per_slice six_particles [1, 3, 2, 4, 6, 10]) = Inr [2, 4, 10]"
proof -
  have "sorted_mean_per_slice six_particles [1, 3, 2, 4, 6, 10]
      = (sorted_mean_per_slice_kernel [0, 2, 5] [2, 5, 6] [1, 3, 2, 4, 6, 10] 3
           (launch_geometry (equipped six_particles)), equipped six_particles)"
    using sorted_mean_per_slice_unfold [OF six_guard, of "[0, 2, 5]" "[2, 5, 6]"]
    by (simp add: six_fresh six_bounds)
  then show ?thesis
    by (simp add: sorted_mean_per_slice_kernel_def upt3 six_slices six_slice_1 mean_of_slice_def)
qed

lemma six_std:
  "fst (sorted_std_per_slice six_particles [1, 3, 2, 4, 6, 10]) = Inr [1, sqrt (8 / 3), 0]"
proof -
  have "sorted_std_per_slice six_particles [1, 3, 2, 4, 6, 10]
      = (sorted_std_per_slice_kernel [0, 2, 5] [2, 5, 6] [1, 3, 2, 4, 6, 10] 3
           (launch_geometry (equipped six_particles)), equipped six_particles)"
    using sorted_std_per_slice_unfold [OF six_guard, of "[0, 2, 5]" "[2, 5, 6]"]
    by (simp add: six_fresh six_bounds)
  then show ?thesis
    by (simp add: sorted_std_per_slice_kernel_def upt3 six_slices six_slice_1
        std_of_slice_def mean_of_slice_def power2_eq_square)
qed

lemma sqrt_8_3: "\<bar>sqrt (8 / 3) - 1633 / 1000\<bar> < (1 / 2000 :: real)"
proof -
  have "(653 / 400 :: real)\<^sup>2 < 8 / 3" by (simp add: power2_eq_square)
  then have lo: "653 / 400 < sqrt (8 / 3)"
    by (rule real_less_rsqrt)
  have "(8 / 3 :: real) < (3267 / 2000)\<^sup>2" by (simp add: power2_eq_square)
  then have hi: "sqrt (8 / 3) < 3267 / 2000"
    by (intro real_less_lsqrt) simp_all
  have "sqrt (8 / 3) - 1633 / 1000 < 1 / 2000" using hi by simp
  moreover have "- (sqrt (8 / 3) - 1633 / 1000) < 1 / 2000" using lo by simp
  ultimately show ?thesis by (simp only: abs_less_iff)
qed

text \<open>
  Claim C3. For the slice indices \<open>[0,0,1,1,1,2]\<close> with three slices and the values
  \<open>[1,3,2,4,6,10]\<close>, boundary resolution attaches the lower bounds \<open>[0,2,5]\<close> and the
  upper bounds \<open>[2,5,6]\<close>, the mean per slice is \<open>[2,4,10]\<close>, and the standard
  deviation per slice is \<open>1\<close> for slice 0, \<open>sqrt (8/3)\<close> for slice 1, which is \<open>1.633\<close> up
  to half a unit of the last digit, and \<open>0\<close> for the singleton slice 2.
\<close>

theorem end_to_end_scenario:
  "lower_bounds (snd (add_bounds_to_sliceset six_particles)) = Some [0, 2, 5]
   \<and> upper_bounds (snd (add_bounds_to_sliceset six_particles)) = Some [2, 5, 6]
   \<and> fst (sorted_mean_per_slice six_particles [1, 3, 2, 4, 6, 10]) = Inr [2, 4, 10]
   \<and> fst (sorted_std_per_slice six_particles [1, 3, 2, 4, 6, 10]) = Inr [1, sqrt (8 / 3), 0]
   \<and> \<bar>sqrt (8 / 3) - 1633 / 1000\<bar> < (1 / 2000 :: real)"
  using six_mean six_std sqrt_8_3
  by (simp add: add_bounds_attaches six_fresh six_bounds)

section \<open>The bounds cache\<close>

lemma snd_and_then_same:
  assumes "\<And>x t. snd (f x t) = t"
  shows "snd (and_then r f) = snd r"
  using assms by (cases r) (auto simp: and_then_def split: sum.splits)

lemma snd_get_bounds [simp]:
  "snd (get_lower_bounds s) = s" "snd (get_upper_bounds s) = s"
  by (simp_all add: get_lower_bounds_def get_upper_bounds_def split: option.splits)

lemma snd_sorted_mean_per_slice: "snd (sorted_mean_per_slice s u) = snd (bounds_guard s)"
  unfolding sorted_mean_per_slice_def
  by (intro snd_and_then_same [THEN trans] snd_get_bounds refl) simp

lemma snd_sorted_std_per_slice: "snd (sorted_std_per_slice s u) = snd (bounds_guard s)"
  unfolding sorted_std_per_slice_def
  by (intro snd_and_then_same [THEN trans] snd_get_bounds refl) simp

lemma snd_sorted_cov_per_slice: "snd (sorted_cov_per_slice s u v) = snd (bounds_guard s)"
  unfolding sorted_cov_per_slice_def
  by (intro snd_and_then_same [THEN trans] snd_get_bounds refl) simp

lemma snd_particles_within_cuts: "snd (particles_within_cuts s) = snd (bounds_guard s)"
  unfolding particles_within_cuts_def
  by (rule snd_and_then_same) (simp split: sum.splits)

lemma snd_macroparticles_per_slice: "snd (macroparticles_per_slice s) = snd (bounds_guard s)"
  unfolding macroparticles_per_slice_def
  by (intro snd_and_then_same [THEN trans] snd_get_bounds refl) simp

lemma snd_answered [simp]: "snd (answered c r) = snd r"
  by (cases r) (auto simp: answered_def split: sum.splits)

lemma snd_perform: "snd (perform r s) = snd (bounds_guard s)"
  by (cases r)
    (simp_all add: snd_sorted_mean_per_slice snd_sorted_std_per_slice snd_sorted_cov_per_slice
      snd_particles_within_cuts snd_macroparticles_per_slice)


lemma run_attached:
  "upper_bounds s = Some ub \<Longrightarrow> lower_bounds s = Some lb \<Longrightarrow> run rs s = s"
  by (induction rs) (simp_all add: snd_perform bounds_guard_attached)



section \<open>The particles within cuts\<close>

lemma bounds_guard_first:
  "upper_bounds s = None \<Longrightarrow> lower_bounds s = None \<Longrightarrow> 0 < n_slices s
     \<Longrightarrow> bounds_guard s = (Inr (), equipped s)"
  by (simp add: bounds_guard_def add_bounds_equipped)

lemma bounds_guard_equipped: "bounds_guard (equipped s) = (Inr (), equipped s)"
  by (rule bounds_guard_attached) simp_all

lemma run_first:
  assumes "upper_bounds s = None" "lower_bounds s = None" "0 < n_slices s"
  shows "run rs s = (if rs = [] then s else equipped s)"
proof (cases rs)
  case Nil
  then show ?thesis by simp
next
  case (Cons r rs')
  have "snd (perform r s) = equipped s"
    using assms by (simp add: snd_perform bounds_guard_first)
  moreover have "run rs' (equipped s) = equipped s"
    by (rule run_attached) simp_all
  ultimately show ?thesis using Cons by simp
qed

lemma particles_within_cuts_of_guard:
  assumes "bounds_guard t = (Inr (), equipped s)"
  shows "particles_within_cuts t
     = (Inr [lower_bound_int (slice_index_of_particle s) (map int [0..<n_slices s]) ! 0
             ..< upper_bound_int (slice_index_of_particle s) (map int [0..<n_slices s])
                   ! (n_slices s - 1)], equipped s)"
  using assms
  by (simp add: particles_within_cuts_def and_then_def pidx_begin_def pidx_end_def)

lemma particles_within_cuts_run:
  assumes "upper_bounds s = None" "lower_bounds s = None" "0 < n_slices s"
  shows "particles_within_cuts (run rs s)
     = (Inr [lower_bound_int (slice_index_of_particle s) (map int [0..<n_slices s]) ! 0
             ..< upper_bound_int (slice_index_of_particle s) (map int [0..<n_slices s])
                   ! (n_slices s - 1)], equipped s)"
proof (cases "rs = []")
  case True
  then show ?thesis
    using particles_within_cuts_of_guard [OF bounds_guard_first [OF assms]] by simp
next
  case False
  then show ?thesis
    using particles_within_cuts_of_guard [OF bounds_guard_equipped] run_first [OF assms, of rs]
    by simp
qed

lemma occupied_range:
  assumes "sorted idx" and "0 < n"
  shows "set [lower_of idx 0 ..< upper_of idx (n - 1)]
     = {j. j < length idx \<and> 0 \<le> idx ! j \<and> idx ! j < int n}"
proof -
  have lo: "splits_at (\<lambda>x. x < 0) idx (lower_of idx 0)"
    using splits_at_lower_of [OF assms(1), of 0] by simp
  have hi: "splits_at (\<lambda>x. x \<le> int (n - 1)) idx (upper_of idx (n - 1))"
    by (rule splits_at_upper_of [OF assms(1)])
  have n: "\<And>x. (x \<le> int (n - 1)) = (x < int n)"
    using assms(2) by auto
  show ?thesis
  proof (rule set_eqI)
    fix j
    show "j \<in> set [lower_of idx 0 ..< upper_of idx (n - 1)]
       \<longleftrightarrow> j \<in> {j. j < length idx \<and> 0 \<le> idx ! j \<and> idx ! j < int n}"
    proof (cases "j < length idx")
      case True
      then show ?thesis
        using lo hi unfolding splits_at_def n
        by (metis (mono_tags, lifting) atLeastLessThan_iff linorder_not_le mem_Collect_eq
            set_upt)
    next
      case False
      then show ?thesis
        using upper_of_le_length [of idx "n - 1"] by auto
    qed
  qed
qed

text \<open>
  Claim C9. For a sliceset with an ascending slice index array and at least one slice,
  whether no operation or any sequence of operations has been applied to it before,
  \<^verbatim>\<open>particles_within_cuts\<close> returns the contiguous indices from \<open>lower_bounds[0]\<close>
  (inclusive) to \<open>upper_bounds[n_slices - 1]\<close> (exclusive), the bounds being those attached
  to the sliceset; these are the positions of the particles whose slice index lies in
  \<open>[0, n_slices)\<close>.
\<close>

theorem particles_within_cuts_range:
  assumes "upper_bounds s = None" and "lower_bounds s = None" and "0 < n_slices s"
    and "sorted (slice_index_of_particle s)"
  shows "fst (particles_within_cuts (run rs s))
           = Inr [lower_of (slice_index_of_particle s) 0
                  ..< upper_of (slice_index_of_particle s) (n_slices s - 1)]
       \<and> lower_bounds (snd (particles_within_cuts (run rs s)))
           = Some (map (lower_of (slice_index_of_particle s)) [0..<n_slices s])
       \<and> upper_bounds (snd (particles_within_cuts (run rs s)))
           = Some (map (upper_of (slice_index_of_particle s)) [0..<n_slices s])
       \<and> set [lower_of (slice_index_of_particle s) 0
                ..< upper_of (slice_index_of_particle s) (n_slices s - 1)]
           = {j. j < length (slice_index_of_particle s) \<and> 0 \<le> slice_index_of_particle s ! j
                 \<and> slice_index_of_particle s ! j < int (n_slices s)}"
proof -
  let ?idx = "slice_index_of_particle s" and ?n = "n_slices s"
  have lb: "lower_bound_int ?idx (map int [0..<?n]) = map (lower_of ?idx) [0..<?n]"
    and ub: "upper_bound_int ?idx (map int [0..<?n]) = map (upper_of ?idx) [0..<?n]"
    using assms(4) by (rule lower_bound_int_sorted upper_bound_int_sorted)+
  have first: "map (lower_of ?idx) [0..<?n] ! 0 = lower_of ?idx 0"
    using assms(3) by simp
  have last: "map (upper_of ?idx) [0..<?n] ! (?n - 1) = upper_of ?idx (?n - 1)"
    using assms(3) by simp
  have "particles_within_cuts (run rs s)
      = (Inr [lower_of ?idx 0 ..< upper_of ?idx (?n - 1)], equipped s)"
    using particles_within_cuts_run [OF assms(1-3), of rs] unfolding lb ub first last .
  then show ?thesis
    using occupied_range [OF assms(4,3)] by (simp add: lb ub)
qed

theorem particles_within_cuts_range_witness:
  "upper_bounds five_particles = None \<and> lower_bounds five_particles = None
   \<and> 0 < n_slices five_particles \<and> sorted (slice_index_of_particle five_particles)
   \<and> fst (particles_within_cuts (run [StdPerSlice [1, 2, 3, 4, 5]] five_particles))
       = Inr [1, 2, 3]"
proof -
  have h: "upper_bounds five_particles = None" "lower_bounds five_particles = None"
    "0 < n_slices five_particles" "sorted (slice_index_of_particle five_particles)"
    by (simp_all add: five_particles_def)
  have idx: "slice_index_of_particle five_particles = [- 1, 0, 0, 2, 3]"
    and n: "n_slices five_particles = 3"
    by (simp_all add: five_particles_def)
  have vals: "lower_of [- 1, 0, 0, 2, 3] 0 = 1" "upper_of [- 1, 0, 0, 2, 3] (3 - 1) = 4"
    by (simp_all add: lower_of_def upper_of_def first_position_def)
  have range: "[1 ..< 4] = [1, 2, 3::nat]"
    by (simp add: upt_conv_Cons)
  note res = particles_within_cuts_range [OF h, of "[StdPerSlice [1, 2, 3, 4, 5]]",
      unfolded idx n vals range]
  from h res show ?thesis by blast
qed

section \<open>The slices of a value array\<close>

lemma filter_range:
  assumes "lb \<le> ub" and "ub \<le> length xs"
    and "\<And>j. j < length xs \<Longrightarrow> P (xs ! j) = (lb \<le> j \<and> j < ub)"
  shows "filter P xs = take (ub - lb) (drop lb xs)"
proof -
  have split: "xs = take lb xs @ take (ub - lb) (drop lb xs) @ drop ub xs"
  proof -
    have "drop lb xs = take (ub - lb) (drop lb xs) @ drop (ub - lb) (drop lb xs)"
      by (simp only: append_take_drop_id)
    moreover have "drop (ub - lb) (drop lb xs) = drop ub xs"
      using assms(1) by simp
    ultimately show ?thesis
      by (metis append_take_drop_id)
  qed
  have pre: "filter P (take lb xs) = []"
  proof -
    have "\<forall>x\<in>set (take lb xs). \<not> P x"
    proof
      fix x assume "x \<in> set (take lb xs)"
      then obtain j where "j < length (take lb xs)" "take lb xs ! j = x"
        by (auto simp: in_set_conv_nth)
      then show "\<not> P x" using assms(3) [of j] by auto
    qed
    then show ?thesis by (simp add: filter_empty_conv)
  qed
  have post: "filter P (drop ub xs) = []"
  proof -
    have "\<forall>x\<in>set (drop ub xs). \<not> P x"
    proof
      fix x assume "x \<in> set (drop ub xs)"
      then obtain j where "j < length (drop ub xs)" "drop ub xs ! j = x"
        by (auto simp: in_set_conv_nth)
      then show "\<not> P x" using assms(3) [of "ub + j"] assms(2) by auto
    qed
    then show ?thesis by (simp add: filter_empty_conv)
  qed
  have mid: "filter P (take (ub - lb) (drop lb xs)) = take (ub - lb) (drop lb xs)"
  proof -
    have "\<forall>x\<in>set (take (ub - lb) (drop lb xs)). P x"
    proof
      fix x assume "x \<in> set (take (ub - lb) (drop lb xs))"
      then obtain j where j: "j < length (take (ub - lb) (drop lb xs))"
          "take (ub - lb) (drop lb xs) ! j = x"
        by (auto simp: in_set_conv_nth)
      then have "j < ub - lb" "lb + j < length xs" by auto
      then show "P x" using assms(3) [of "lb + j"] j by auto
    qed
    then show ?thesis by (simp add: filter_id_conv)
  qed
  have "filter P xs = filter P (take lb xs @ take (ub - lb) (drop lb xs) @ drop ub xs)"
    using split by simp
  then show ?thesis
    by (simp only: filter_append pre post mid append_Nil append_Nil2)
qed

lemma values_of_slice_range:
  assumes "sorted idx" and "length u = length idx"
  shows "values_of_slice idx u i
     = take (upper_of idx i - lower_of idx i) (drop (lower_of idx i) u)"
proof -
  let ?P = "\<lambda>(s, x :: real). s = int i"
  have "filter ?P (zip idx u)
      = take (upper_of idx i - lower_of idx i) (drop (lower_of idx i) (zip idx u))"
  proof (rule filter_range)
    show "lower_of idx i \<le> upper_of idx i" by (rule lower_le_upper [OF assms(1)])
    show "upper_of idx i \<le> length (zip idx u)"
      using upper_of_le_length [of idx i] assms(2) by simp
    fix j assume "j < length (zip idx u)"
    then have j: "j < length idx" by simp
    then show "?P (zip idx u ! j) = (lower_of idx i \<le> j \<and> j < upper_of idx i)"
      using range_holds_index [OF assms(1) j, of i] assms(2) by simp
  qed
  moreover have "map snd (zip idx u) = u"
    using assms(2) by simp
  ultimately show ?thesis
    by (simp add: values_of_slice_def take_map [symmetric] drop_map [symmetric]
        del: take_map drop_map)
qed

lemma slice_values_sorted:
  assumes "sorted idx" and "length u = length idx" and "i < n"
  shows "slice_values (map (lower_of idx) [0..<n]) (map (upper_of idx) [0..<n]) u i
     = Inr (values_of_slice idx u i)"
proof -
  have le: "lower_of idx i \<le> upper_of idx i" by (rule lower_le_upper [OF assms(1)])
  have len: "upper_of idx i \<le> length u"
    using upper_of_le_length [of idx i] assms(2) by simp
  show ?thesis
    using assms(3) le len
    by (simp add: slice_values_def values_of_slice_range [OF assms(1,2)])
qed

lemma collect_map_Inr: "collect (map (\<lambda>i. Inr (g i)) xs) = Inr (map g xs)"
  by (induction xs) simp_all

lemma collect_map_cong:
  assumes "\<And>i. i \<in> set xs \<Longrightarrow> f i = Inr (g i)"
  shows "collect (map f xs) = Inr (map g xs)"
proof -
  have "map f xs = map (\<lambda>i. Inr (g i)) xs"
    using assms by simp
  then show ?thesis by (simp only: collect_map_Inr)
qed

lemma length_values_of_slice:
  assumes "sorted idx" and "length u = length idx"
  shows "length (values_of_slice idx u i) = upper_of idx i - lower_of idx i"
  using upper_of_le_length [of idx i] assms(2)
  by (simp add: values_of_slice_range [OF assms])

lemma cov_of_slice_eq_cov:
  assumes "xs \<noteq> []" and "length xs = length ys"
  shows "cov_of_slice xs ys = cov xs ys"
proof -
  have ys: "ys \<noteq> []" using assms by auto
  have "map2 (\<lambda>x y. (x - mean xs) * (y - mean ys)) xs ys
      = map (\<lambda>i. (xs ! i - mean xs) * (ys ! i - mean ys)) [0..<length xs]"
    using assms(2) by (intro nth_equalityI) simp_all
  then show ?thesis
    using assms(1) ys
    by (simp add: cov_of_slice_def cov_def mean_of_slice_def mean_def add.commute)
qed

lemma cov_scaled_plain:
  "cov a b = cov_plain a b * real (length a) / (real (length a) + 1)"
  by (simp add: cov_def cov_plain_def mean_def add.commute)

lemma sorted_cov_per_slice_sorted:
  assumes "upper_bounds s = None" and "lower_bounds s = None" and "0 < n_slices s"
    and "sorted (slice_index_of_particle s)"
    and "length u = length (slice_index_of_particle s)"
    and "length v = length (slice_index_of_particle s)"
  shows "sorted_cov_per_slice s u v
     = (Inr (map (\<lambda>i. cov_of_slice (values_of_slice (slice_index_of_particle s) u i)
                                   (values_of_slice (slice_index_of_particle s) v i))
                 [0..<n_slices s]), equipped s)"
proof -
  let ?idx = "slice_index_of_particle s" and ?n = "n_slices s"
  have lb: "lower_bounds (equipped s) = Some (map (lower_of ?idx) [0..<?n])"
    and ub: "upper_bounds (equipped s) = Some (map (upper_of ?idx) [0..<?n])"
    using assms(4) by (simp_all add: lower_bound_int_sorted upper_bound_int_sorted)
  have "sorted_cov_per_slice_kernel (map (lower_of ?idx) [0..<?n]) (map (upper_of ?idx) [0..<?n])
          u v ?n (launch_geometry (equipped s))
      = Inr (map (\<lambda>i. cov_of_slice (values_of_slice ?idx u i) (values_of_slice ?idx v i))
                 [0..<?n])"
    unfolding sorted_cov_per_slice_kernel_def
    by (rule collect_map_cong)
      (simp add: slice_values_sorted [OF assms(4,5)] slice_values_sorted [OF assms(4,6)])
  then show ?thesis
    using sorted_cov_per_slice_unfold [OF bounds_guard_first [OF assms(1-3)] lb ub, of u v]
    by simp
qed

text \<open>
  Claim C1. For two arrays \<open>a\<close> and \<open>b\<close> of one length \<open>n > 0\<close>, \<^verbatim>\<open>covariance\<close>
  returns the mean of the products of the deviations from the means, scaled by
  \<open>n / (n + 1)\<close>, that is the plain \<open>1/n\<close> covariance times \<open>n / (n + 1)\<close>. The covariance
  per slice of a sliceset with an ascending index array follows the same convention
  within each slice: its entry for slice \<open>i\<close> is the same formula over the values of the
  particles that hold the index \<open>i\<close>, with \<open>n\<close> their number, and \<open>0\<close> for an empty slice.
\<close>

theorem covariance_bias_convention:
  assumes "length a = length b" and "a \<noteq> []"
    and "upper_bounds s = None" and "lower_bounds s = None" and "0 < n_slices s"
    and "sorted (slice_index_of_particle s)"
    and "length u = length (slice_index_of_particle s)"
    and "length v = length (slice_index_of_particle s)"
  shows "covariance a b = Some (cov a b)
       \<and> cov a b = cov_plain a b * real (length a) / (real (length a) + 1)
       \<and> fst (sorted_cov_per_slice s u v)
           = Inr (map (\<lambda>i. if values_of_slice (slice_index_of_particle s) u i = [] then 0
                            else cov (values_of_slice (slice_index_of_particle s) u i)
                                     (values_of_slice (slice_index_of_particle s) v i))
                      [0..<n_slices s])"
proof -
  let ?idx = "slice_index_of_particle s"
  have "cov_of_slice (values_of_slice ?idx u i) (values_of_slice ?idx v i)
      = (if values_of_slice ?idx u i = [] then 0
         else cov (values_of_slice ?idx u i) (values_of_slice ?idx v i))" for i
  proof (cases "values_of_slice ?idx u i = []")
    case True
    then show ?thesis by (simp add: cov_of_slice_def)
  next
    case False
    moreover have "length (values_of_slice ?idx u i) = length (values_of_slice ?idx v i)"
      by (simp add: length_values_of_slice [OF assms(6,7)]
          length_values_of_slice [OF assms(6,8)])
    ultimately show ?thesis by (simp add: cov_of_slice_eq_cov)
  qed
  then have "fst (sorted_cov_per_slice s u v)
      = Inr (map (\<lambda>i. if values_of_slice ?idx u i = [] then 0
                       else cov (values_of_slice ?idx u i) (values_of_slice ?idx v i))
                 [0..<n_slices s])"
    by (simp add: sorted_cov_per_slice_sorted [OF assms(3-8)])
  then show ?thesis
    using covariance_eq_cov [OF assms(2,1)] cov_scaled_plain [of a b] by simp
qed

lemma six_values:
  "values_of_slice [0, 0, 1, 1, 1, 2] [1, 3, 2, 4, 6, 10] 0 = [1, 3]"
  "values_of_slice [0, 0, 1, 1, 1, 2] [1, 3, 2, 4, 6, 10] (Suc 0) = [2, 4, 6]"
  "values_of_slice [0, 0, 1, 1, 1, 2] [1, 3, 2, 4, 6, 10] 2 = [10]"
  by (simp_all add: values_of_slice_def)

lemma cov_examples:
  "cov [1, 3] [1, 3] = 2 / 3" "cov [2, 4, 6] [2, 4, 6] = 2" "cov [10] [10] = 0"
  "cov_bessel [1, 3] [1, 3] = 2" "cov_plain [1, 3] [1, 3] = 1"
  by (simp_all add: cov_def cov_bessel_def cov_plain_def mean_def upt_conv_Cons
      numeral_3_eq_3 numeral_2_eq_2)

theorem covariance_bias_convention_witness:
  "length [1, 3 :: real] = length [1, 3 :: real] \<and> [1, 3 :: real] \<noteq> []
   \<and> upper_bounds six_particles = None \<and> lower_bounds six_particles = None
   \<and> 0 < n_slices six_particles \<and> sorted (slice_index_of_particle six_particles)
   \<and> length [1, 3, 2, 4, 6, 10 :: real] = length (slice_index_of_particle six_particles)
   \<and> covariance [1, 3] [1, 3] = Some (2 / 3)
   \<and> cov_bessel [1, 3] [1, 3] = 2 \<and> cov_plain [1, 3] [1, 3] = 1
   \<and> fst (sorted_cov_per_slice six_particles [1, 3, 2, 4, 6, 10] [1, 3, 2, 4, 6, 10])
       = Inr [2 / 3, 2, 0]"
proof -
  have h: "length [1, 3 :: real] = length [1, 3 :: real]" "[1, 3 :: real] \<noteq> []"
    "upper_bounds six_particles = None" "lower_bounds six_particles = None"
    "0 < n_slices six_particles" "sorted (slice_index_of_particle six_particles)"
    "length [1, 3, 2, 4, 6, 10 :: real] = length (slice_index_of_particle six_particles)"
    by (simp_all add: six_particles_def)
  note res = covariance_bias_convention [OF h(1-7) h(7), unfolded six_fresh(2,3) upt3]
  have per_slice: "map (\<lambda>i. if values_of_slice [0, 0, 1, 1, 1, 2] [1, 3, 2, 4, 6, 10] i = []
                          then 0
                          else cov (values_of_slice [0, 0, 1, 1, 1, 2] [1, 3, 2, 4, 6, 10] i)
                                   (values_of_slice [0, 0, 1, 1, 1, 2] [1, 3, 2, 4, 6, 10] i))
                      [0, 1, 2] = [2 / 3, 2, 0]"
    by (simp add: six_values cov_examples)
  from res have "covariance [1, 3] [1, 3] = Some (2 / 3)"
    by (simp add: cov_examples)
  moreover from res per_slice
  have "fst (sorted_cov_per_slice six_particles [1, 3, 2, 4, 6, 10] [1, 3, 2, 4, 6, 10])
      = Inr [2 / 3, 2, 0]"
    by simp
  ultimately show ?thesis using h cov_examples by blast
qed

section \<open>The emittance\<close>

lemma emittance_arith:
  "fsqrt (fsub (fmul (fsub (Some a) (fdiv (fmul (Some d) (Some d)) (Some f)))
                     (fsub (Some b) (fdiv (fmul (Some e) (Some e)) (Some f))))
               (fmul (fsub (Some c) (fdiv (fmul (Some d) (Some e)) (Some f)))
                     (fsub (Some c) (fdiv (fmul (Some d) (Some e)) (Some f)))))
   = emittance_of_cov a b c d e f"
  by (simp add: fsqrt_def fsub_def fmul_def fdiv_def emittance_of_cov_def Let_def
      power2_eq_square)

lemma emittance_of_cov_no_dispersion:
  "emittance_of_cov a b c 0 0 1
     = (if a * b - c\<^sup>2 < 0 then None else Some (sqrt (a * b - c\<^sup>2)))"
  by (simp add: emittance_of_cov_def)

lemma emittance_with_dp:
  assumes "u \<noteq> []" "length up = length u" "length d = length u"
  shows "emittance u up (Some d)
     = emittance_of_cov (cov u u) (cov up up) (cov u up) (cov u d) (cov up d) (cov d d)"
proof -
  have ne: "up \<noteq> []" "d \<noteq> []" using assms by auto
  have c: "covariance u u = Some (cov u u)" "covariance up up = Some (cov up up)"
    "covariance up u = Some (cov u up)" "covariance u d = Some (cov u d)"
    "covariance up d = Some (cov up d)" "covariance d d = Some (cov d d)"
    using assms ne by (simp_all add: covariance_eq_cov cov_sym [of up u])
  show ?thesis
    by (simp add: emittance_def c emittance_arith)
qed

lemma emittance_without_dp:
  assumes "u \<noteq> []" "length up = length u"
  shows "emittance u up None = emittance_of_cov (cov u u) (cov up up) (cov u up) 0 0 1"
proof -
  have ne: "up \<noteq> []" using assms by auto
  have c: "covariance u u = Some (cov u u)" "covariance up up = Some (cov up up)"
    "covariance up u = Some (cov u up)"
    using assms ne by (simp_all add: covariance_eq_cov cov_sym [of up u])
  show ?thesis
    by (simp add: emittance_def c emittance_arith)
qed

lemma map2_map_same: "map2 f (map g xs) (map h xs) = map (\<lambda>x. f (g x) (h x)) xs"
  by (induction xs) simp_all

lemma elementwise_map: 
  "elementwise f (map g xs) (map h xs) = map (\<lambda>x. f (g x) (h x)) xs"
  by (simp add: elementwise_def map2_map_same)

lemma sorted_cov_per_slice_of_guard:
  assumes "bounds_guard t = (Inr (), equipped s)"
    and "sorted (slice_index_of_particle s)"
    and "length u = length (slice_index_of_particle s)"
    and "length v = length (slice_index_of_particle s)"
  shows "sorted_cov_per_slice t u v
     = (Inr (map (slice_cov (slice_index_of_particle s) u v) [0..<n_slices s]), equipped s)"
proof -
  let ?idx = "slice_index_of_particle s" and ?n = "n_slices s"
  have lb: "lower_bounds (equipped s) = Some (map (lower_of ?idx) [0..<?n])"
    and ub: "upper_bounds (equipped s) = Some (map (upper_of ?idx) [0..<?n])"
    using assms(2) by (simp_all add: lower_bound_int_sorted upper_bound_int_sorted)
  have eq: "cov_of_slice (values_of_slice ?idx u i) (values_of_slice ?idx v i)
      = slice_cov ?idx u v i" for i
  proof (cases "values_of_slice ?idx u i = []")
    case True
    then show ?thesis by (simp add: cov_of_slice_def slice_cov_def)
  next
    case False
    moreover have "length (values_of_slice ?idx u i) = length (values_of_slice ?idx v i)"
      by (simp add: length_values_of_slice [OF assms(2,3)]
          length_values_of_slice [OF assms(2,4)])
    ultimately show ?thesis by (simp add: cov_of_slice_eq_cov slice_cov_def)
  qed
  have "sorted_cov_per_slice_kernel (map (lower_of ?idx) [0..<?n]) (map (upper_of ?idx) [0..<?n])
          u v ?n (launch_geometry (equipped s))
      = Inr (map (slice_cov ?idx u v) [0..<?n])"
    unfolding sorted_cov_per_slice_kernel_def
    by (rule collect_map_cong)
      (simp add: slice_values_sorted [OF assms(2,3)] slice_values_sorted [OF assms(2,4)] eq)
  then show ?thesis
    using sorted_cov_per_slice_unfold [OF assms(1) lb ub, of u v] by simp
qed

lemma sorted_emittance_per_slice_sorted:
  assumes "upper_bounds s = None" and "lower_bounds s = None" and "0 < n_slices s"
    and "sorted (slice_index_of_particle s)"
    and "length u = length (slice_index_of_particle s)"
    and "length up = length (slice_index_of_particle s)"
  shows "fst (sorted_emittance_per_slice s u up None)
     = Inr (map (\<lambda>i. emittance_of_cov (slice_cov (slice_index_of_particle s) u u i)
                       (slice_cov (slice_index_of_particle s) up up i)
                       (slice_cov (slice_index_of_particle s) u up i) 0 0 1)
                [0..<n_slices s])"
    and "length d = length (slice_index_of_particle s) \<Longrightarrow>
     fst (sorted_emittance_per_slice s u up (Some d))
     = Inr (map (\<lambda>i. emittance_of_cov (slice_cov (slice_index_of_particle s) u u i)
                       (slice_cov (slice_index_of_particle s) up up i)
                       (slice_cov (slice_index_of_particle s) u up i)
                       (slice_cov (slice_index_of_particle s) u d i)
                       (slice_cov (slice_index_of_particle s) up d i)
                       (slice_cov (slice_index_of_particle s) d d i))
                [0..<n_slices s])"
proof -
  note first = sorted_cov_per_slice_of_guard [OF bounds_guard_first [OF assms(1-3)] assms(4)]
  note later = sorted_cov_per_slice_of_guard [OF bounds_guard_equipped assms(4)]
  show "fst (sorted_emittance_per_slice s u up None)
     = Inr (map (\<lambda>i. emittance_of_cov (slice_cov (slice_index_of_particle s) u u i)
                       (slice_cov (slice_index_of_particle s) up up i)
                       (slice_cov (slice_index_of_particle s) u up i) 0 0 1)
                [0..<n_slices s])"
    by (simp add: sorted_emittance_per_slice_def and_then_def dispersion_terms_def
        first [OF assms(5,5)] later [OF assms(6,6)] later [OF assms(5,6)]
        elementwise_map emittance_arith Let_def)
  assume d: "length d = length (slice_index_of_particle s)"
  show "fst (sorted_emittance_per_slice s u up (Some d))
     = Inr (map (\<lambda>i. emittance_of_cov (slice_cov (slice_index_of_particle s) u u i)
                       (slice_cov (slice_index_of_particle s) up up i)
                       (slice_cov (slice_index_of_particle s) u up i)
                       (slice_cov (slice_index_of_particle s) u d i)
                       (slice_cov (slice_index_of_particle s) up d i)
                       (slice_cov (slice_index_of_particle s) d d i))
                [0..<n_slices s])"
    by (simp add: sorted_emittance_per_slice_def and_then_def dispersion_terms_def
        first [OF assms(5,5)] later [OF assms(6,6)] later [OF assms(5,6)]
        later [OF assms(5) d] later [OF assms(6) d] later [OF d d]
        elementwise_map emittance_arith Let_def)
qed

text \<open>
  Claim C4. For arrays \<open>u\<close>, \<open>up\<close> and \<open>dp\<close> of one length \<open>n > 0\<close>, \<^verbatim>\<open>emittance\<close>
  returns \<open>sqrt (\<sigma>11 \<sigma>22 - \<sigma>12\<^sup>2)\<close> with \<open>\<sigma>11 = cov(u,u) - cov(u,dp)\<^sup>2 / cov(dp,dp)\<close>,
  \<open>\<sigma>12 = cov(u,up) - cov(u,dp) cov(up,dp) / cov(dp,dp)\<close> and
  \<open>\<sigma>22 = cov(up,up) - cov(up,dp)\<^sup>2 / cov(dp,dp)\<close>; without \<open>dp\<close> the three dispersion terms
  are \<open>0\<close>, \<open>0\<close> and \<open>1\<close>, and the result is \<open>sqrt (cov(u,u) cov(up,up) - cov(u,up)\<^sup>2)\<close>. The
  result is not finite where \<open>cov(dp,dp)\<close> is zero or the radicand negative. The emittance
  per slice of a sliceset with an ascending index array is the same formula, slice by
  slice, over the covariances per slice.
\<close>

theorem emittance_formula:
  assumes "u \<noteq> []" and "length up = length u" and "length d = length u"
    and "upper_bounds s = None" and "lower_bounds s = None" and "0 < n_slices s"
    and "sorted (slice_index_of_particle s)"
    and "length u = length (slice_index_of_particle s)"
  shows "emittance u up (Some d)
           = emittance_of_cov (cov u u) (cov up up) (cov u up) (cov u d) (cov up d) (cov d d)
       \<and> emittance u up None = emittance_of_cov (cov u u) (cov up up) (cov u up) 0 0 1
       \<and> emittance u up None
           = (if cov u u * cov up up - (cov u up)\<^sup>2 < 0 then None
              else Some (sqrt (cov u u * cov up up - (cov u up)\<^sup>2)))
       \<and> fst (sorted_emittance_per_slice s u up (Some d))
           = Inr (map (\<lambda>i. emittance_of_cov (slice_cov (slice_index_of_particle s) u u i)
                             (slice_cov (slice_index_of_particle s) up up i)
                             (slice_cov (slice_index_of_particle s) u up i)
                             (slice_cov (slice_index_of_particle s) u d i)
                             (slice_cov (slice_index_of_particle s) up d i)
                             (slice_cov (slice_index_of_particle s) d d i))
                      [0..<n_slices s])
       \<and> fst (sorted_emittance_per_slice s u up None)
           = Inr (map (\<lambda>i. emittance_of_cov (slice_cov (slice_index_of_particle s) u u i)
                             (slice_cov (slice_index_of_particle s) up up i)
                             (slice_cov (slice_index_of_particle s) u up i) 0 0 1)
                      [0..<n_slices s])"
proof -
  have up: "length up = length (slice_index_of_particle s)"
    and d: "length d = length (slice_index_of_particle s)"
    using assms(2,3,8) by simp_all
  show ?thesis
    using emittance_with_dp [OF assms(1-3)] emittance_without_dp [OF assms(1,2)]
      sorted_emittance_per_slice_sorted [OF assms(4-8) up]
      emittance_of_cov_no_dispersion [of "cov u u" "cov up up" "cov u up"] d
    by simp
qed

lemma three_values:
  "values_of_slice [0, 0, 0] [a, b, c] 0 = [a, b, c]"
  "values_of_slice [0, 0, 0] [a, b, c] (Suc 0) = []"
  by (simp_all add: values_of_slice_def)

lemma three_cov:
  "cov [0, 2, 4] [0, 2, 4] = 2" "cov [1, 0, 1] [1, 0, 1] = 1 / 6" "cov [0, 2, 4] [1, 0, 1] = 0"
  "cov [0, 2, 4] [1, 2, 3] = 1" "cov [1, 0, 1] [1, 2, 3] = 0" "cov [1, 2, 3] [1, 2, 3] = 1 / 2"
  by (simp_all add: cov_def mean_def upt_conv_Cons numeral_3_eq_3 numeral_2_eq_2)

theorem emittance_formula_witness:
  "[0, 2, 4 :: real] \<noteq> [] \<and> length [1, 0, 1 :: real] = length [0, 2, 4 :: real]
   \<and> length [1, 2, 3 :: real] = length [0, 2, 4 :: real]
   \<and> upper_bounds three_particles = None \<and> lower_bounds three_particles = None
   \<and> 0 < n_slices three_particles \<and> sorted (slice_index_of_particle three_particles)
   \<and> length [0, 2, 4 :: real] = length (slice_index_of_particle three_particles)
   \<and> emittance [0, 2, 4] [1, 0, 1] (Some [1, 2, 3]) = Some 0
   \<and> emittance [0, 2, 4] [1, 0, 1] None = Some (sqrt (1 / 3))
   \<and> fst (sorted_emittance_per_slice three_particles [0, 2, 4] [1, 0, 1] (Some [1, 2, 3]))
       = Inr [Some 0, None]
   \<and> fst (sorted_emittance_per_slice three_particles [0, 2, 4] [1, 0, 1] None)
       = Inr [Some (sqrt (1 / 3)), Some 0]"
proof -
  have h: "[0, 2, 4 :: real] \<noteq> []" "length [1, 0, 1 :: real] = length [0, 2, 4 :: real]"
    "length [1, 2, 3 :: real] = length [0, 2, 4 :: real]"
    "upper_bounds three_particles = None" "lower_bounds three_particles = None"
    "0 < n_slices three_particles" "sorted (slice_index_of_particle three_particles)"
    "length [0, 2, 4 :: real] = length (slice_index_of_particle three_particles)"
    by (simp_all add: three_particles_def)
  have idx: "slice_index_of_particle three_particles = [0, 0, 0]"
    and n: "n_slices three_particles = 2"
    by (simp_all add: three_particles_def)
  have upt2: "[0..<2] = [0, Suc 0]"
    by (simp add: upt_conv_Cons numeral_2_eq_2)
  have e: "emittance_of_cov 2 (1 / 6) 0 1 0 (1 / 2) = Some 0"
    "emittance_of_cov 2 (1 / 6) 0 0 0 1 = Some (sqrt (1 / 3))"
    "emittance_of_cov 0 0 0 0 0 0 = None"
    "emittance_of_cov 0 0 0 0 0 1 = Some 0"
    by (simp_all add: emittance_of_cov_def)
  note res = emittance_formula [OF h, unfolded idx n upt2]
  from res have "emittance [0, 2, 4] [1, 0, 1] (Some [1, 2, 3]) = Some 0"
    by (simp add: three_cov e)
  moreover from res have "emittance [0, 2, 4] [1, 0, 1] None = Some (sqrt (1 / 3))"
    by (simp add: three_cov e)
  moreover from res
  have "fst (sorted_emittance_per_slice three_particles [0, 2, 4] [1, 0, 1] (Some [1, 2, 3]))
      = Inr [Some 0, None]"
    by (simp add: slice_cov_def three_values three_cov e)
  moreover from res
  have "fst (sorted_emittance_per_slice three_particles [0, 2, 4] [1, 0, 1] None)
      = Inr [Some (sqrt (1 / 3)), Some 0]"
    by (simp add: slice_cov_def three_values three_cov e)
  ultimately show ?thesis using h by blast
qed

section \<open>Properties of sorting and permuting\<close>

lemma supported_iff:
  "supported dt \<longleftrightarrow> (itemsize dt = 8 \<and> kind dt = CHR ''f'') \<or> (itemsize dt = 4 \<and> kind dt = CHR ''i'')"
  by (cases dt) (auto simp: supported_def float64_def int32_def)

lemma is_int32_iff: "dt = int32 \<longleftrightarrow> itemsize dt = 4 \<and> kind dt = CHR ''i''"
  by (cases dt) (auto simp: int32_def)

lemma take_update_beyond: "length h \<le> k \<Longrightarrow> take (length h) (g[k := x]) = take (length h) g"
  by (simp add: take_update_cancel)

lemma thrust_get_sort_perm_frame:
  assumes "length h \<le> keys" and "length h \<le> permutation"
  shows "take (length h) (thrust_get_sort_perm g keys permutation) = take (length h) g"
  using assms by (simp add: thrust_get_sort_perm_def Let_def take_update_beyond)

lemma argsort_supported:
  assumes "supported (dtype (h ! to_sort))"
  shows "argsort h to_sort
     = (Inr (length h),
        thrust_get_sort_perm
          (h @ [\<lparr>dtype = int32, elems = replicate (length (elems (h ! to_sort))) 0\<rparr>,
                (h @ [\<lparr>dtype = int32, elems = replicate (length (elems (h ! to_sort))) 0\<rparr>])
                  ! to_sort])
          (Suc (length h)) (length h))"
  using assms
  by (auto simp: argsort_def gpuarray_empty_def gpuarray_copy_def supported_iff Let_def)

lemma argsort_unsupported:
  assumes "\<not> supported (dtype (h ! to_sort))"
  shows "argsort h to_sort
     = (Inl NameError,
        h @ [\<lparr>dtype = int32, elems = replicate (length (elems (h ! to_sort))) 0\<rparr>])"
  using assms
  by (auto simp: argsort_def gpuarray_empty_def supported_iff Let_def)

lemma argsort_frame: "take (length h) (snd (argsort h to_sort)) = h"
proof (cases "supported (dtype (h ! to_sort))")
  case True
  show ?thesis
    unfolding argsort_supported [OF True] snd_conv
    by (subst thrust_get_sort_perm_frame) simp_all
next
  case False
  then show ?thesis by (simp add: argsort_unsupported)
qed

lemma argsort_sorts_copy:
  assumes "supported (dtype (h ! to_sort))" and "to_sort < length h"
  shows "elems (snd (argsort h to_sort) ! Suc (length h)) = sort (elems (h ! to_sort))"
  using assms(2)
  by (simp add: argsort_supported [OF assms(1)] thrust_get_sort_perm_def Let_def nth_append)

lemma thrust_apply_sort_perm_frame:
  assumes "thrust_apply_sort_perm g array tmp permutation = Inr g'" and "length h \<le> tmp"
  shows "take (length h) g' = take (length h) g"
  using assms
  by (auto simp: thrust_apply_sort_perm_def Let_def take_update_beyond split: if_splits)

lemma apply_permutation_frame:
  "take (length h) (snd (apply_permutation h array permutation)) = h"
proof -
  let ?h1 = "h @ [\<lparr>dtype = dtype (h ! array), elems = replicate (length (elems (h ! array))) 0\<rparr>]"
  have "take (length h) g' = h"
    if "thrust_apply_sort_perm ?h1 array (length h) permutation = Inr g'" for g'
    using thrust_apply_sort_perm_frame [OF that, of h] by simp
  then show ?thesis
    by (auto simp: apply_permutation_def gpuarray_empty_like_def gpuarray_empty_def Let_def
        split: sum.splits)
qed

lemma frame_nth: "take (length h) g = h \<Longrightarrow> a < length h \<Longrightarrow> g ! a = h ! a"
  by (metis nth_take)

lemma apply_permutation_assertion:
  "dtype (h ! permutation) \<noteq> int32
     \<Longrightarrow> apply_permutation h array permutation = (Inl AssertionError, h)"
  by (simp add: apply_permutation_def is_int32_iff)

lemma apply_permutation_unsupported:
  "dtype (h ! permutation) = int32 \<Longrightarrow> \<not> supported (dtype (h ! array))
     \<Longrightarrow> fst (apply_permutation h array permutation) = Inl TypeError"
  by (auto simp: apply_permutation_def is_int32_iff supported_iff gpuarray_empty_like_def
      gpuarray_empty_def Let_def)

text \<open>
  Claim C10. \<^verbatim>\<open>argsort\<close> and \<^verbatim>\<open>apply_permutation\<close> leave every array that existed
  before the call as it was, in particular their arguments: \<^verbatim>\<open>argsort\<close> has the
  sorting routine work on a copy (for a supported type the copy, allocated second, holds
  the sorted contents afterwards, the argument its original ones), and
  \<^verbatim>\<open>apply_permutation\<close> writes into the newly allocated array only.
\<close>

theorem argsort_apply_permutation_frame:
  assumes "to_sort < length h" and "array < length h" and "permutation < length h"
  shows "snd (argsort h to_sort) ! to_sort = h ! to_sort
       \<and> take (length h) (snd (argsort h to_sort)) = h
       \<and> (supported (dtype (h ! to_sort)) \<longrightarrow>
            elems (snd (argsort h to_sort) ! Suc (length h)) = sort (elems (h ! to_sort)))
       \<and> snd (apply_permutation h array permutation) ! array = h ! array
       \<and> snd (apply_permutation h array permutation) ! permutation = h ! permutation
       \<and> take (length h) (snd (apply_permutation h array permutation)) = h"
  using assms argsort_frame [of h to_sort] apply_permutation_frame [of h array permutation]
    argsort_sorts_copy [of h to_sort]
    frame_nth [OF argsort_frame assms(1)]
    frame_nth [OF apply_permutation_frame assms(2)]
    frame_nth [OF apply_permutation_frame assms(3)]
  by simp

theorem argsort_apply_permutation_frame_witness:
  "0 < length double_store \<and> 1 < length double_store
   \<and> supported (dtype (double_store ! 0))
   \<and> elems (snd (argsort double_store 0) ! 0) = [3, 1, 2]
   \<and> elems (snd (argsort double_store 0) ! 4) = [1, 2, 3]
   \<and> snd (apply_permutation double_store 0 1) ! 0 = double_store ! 0
   \<and> snd (apply_permutation double_store 0 1) ! 1 = double_store ! 1"
proof -
  have h: "0 < length double_store" "1 < length double_store"
    by (simp_all add: double_store_def)
  have s: "supported (dtype (double_store ! 0))"
    by (simp add: double_store_def supported_def)
  have e: "elems (double_store ! 0) = [3, 1, 2]" "Suc (length double_store) = 4"
    "sort [3, 1, 2 :: real] = [1, 2, 3]"
    by (simp_all add: double_store_def)
  note res = argsort_apply_permutation_frame [OF h(1) h(1) h(2)]
  from res s e have "elems (snd (argsort double_store 0) ! 0) = [3, 1, 2]"
    "elems (snd (argsort double_store 0) ! 4) = [1, 2, 3]"
    by simp_all
  with res h s show ?thesis by blast
qed

text \<open>
  Claim C6, at an array of single-precision floats: \<^verbatim>\<open>argsort\<close> ends with
  \<^verbatim>\<open>NameError\<close>, not with the \<^verbatim>\<open>TypeError\<close> that its last branch was written to
  raise and that \<^verbatim>\<open>apply_permutation\<close> raises for the same array.
\<close>

theorem argsort_unsupported_type_NameError:
  "\<not> supported (dtype (single_store ! 0))
   \<and> fst (argsort single_store 0) = Inl NameError
   \<and> fst (apply_permutation single_store 0 1) = Inl TypeError"
proof -
  have u: "\<not> supported (dtype (single_store ! 0))"
    by (simp add: single_store_def supported_iff float32_def)
  have i: "dtype (single_store ! 1) = int32"
    by (simp add: single_store_def)
  show ?thesis
    using u argsort_unsupported [OF u] apply_permutation_unsupported [OF i u] by simp
qed

section \<open>The permutation round trip\<close>

lemma index_of_real [simp]: "index_of (real k) = k"
  by (simp add: index_of_def)

lemma valid_index_real [simp]: "valid_index n (real k) \<longleftrightarrow> k < n"
  by (simp add: valid_index_def)

lemma thrust_apply_sort_perm_indices:
  assumes "elems (g ! permutation) = map real ps"
    and "length ps = length (elems (g ! array))"
    and "\<forall>k\<in>set ps. k < length ps"
  shows "thrust_apply_sort_perm g array tmp permutation
     = Inr (g[tmp := (g ! tmp)\<lparr>elems := map (\<lambda>i. elems (g ! array) ! (ps ! i)) [0..<length ps]\<rparr>])"
proof -
  have valid: "list_all (valid_index (length (elems (g ! array)))) (map real ps)"
    using assms(2,3) by (simp add: list_all_iff)
  have eq: "map (\<lambda>i. elems (g ! array) ! index_of (map real ps ! i))
        [0..<length (elems (g ! array))]
      = map (\<lambda>i. elems (g ! array) ! (ps ! i)) [0..<length ps]"
    using assms(2) by simp
  have len: "length (map real ps) = length (elems (g ! array))"
    using assms(2) by simp
  show ?thesis
    unfolding thrust_apply_sort_perm_def Let_def assms(1) eq
    using valid len by simp
qed

lemma apply_permutation_indices:
  assumes "array < length h" and "permutation < length h"
    and "supported (dtype (h ! array))" and "dtype (h ! permutation) = int32"
    and "elems (h ! permutation) = map real ps"
    and "length ps = length (elems (h ! array))"
    and "\<forall>k\<in>set ps. k < length ps"
  shows "apply_permutation h array permutation
     = (Inr (length h),
        h @ [\<lparr>dtype = dtype (h ! array),
               elems = map (\<lambda>i. elems (h ! array) ! (ps ! i)) [0..<length ps]\<rparr>])"
proof -
  let ?t = "\<lparr>dtype = dtype (h ! array), elems = replicate (length (elems (h ! array))) 0\<rparr>"
  have e: "elems ((h @ [?t]) ! permutation) = map real ps"
    "length ps = length (elems ((h @ [?t]) ! array))"
    using assms(1,2,5,6) by (simp_all add: nth_append)
  have "thrust_apply_sort_perm (h @ [?t]) array (length h) permutation
      = Inr (h @ [\<lparr>dtype = dtype (h ! array),
                    elems = map (\<lambda>i. elems (h ! array) ! (ps ! i)) [0..<length ps]\<rparr>])"
    unfolding thrust_apply_sort_perm_indices [OF e assms(7)]
    using assms(1) by (simp add: nth_append)
  then show ?thesis
    using assms(3,4)
    by (auto simp: apply_permutation_def gpuarray_empty_like_def gpuarray_empty_def Let_def
        supported_iff is_int32_iff)
qed

lemma first_position_found:
  assumes "x \<in> set xs"
  shows "first_position (\<lambda>k. k = x) xs < length xs"
    and "xs ! first_position (\<lambda>k. k = x) xs = x"
proof -
  let ?r = "length (takeWhile (\<lambda>k. k \<noteq> x) xs)"
  have "takeWhile (\<lambda>k. k \<noteq> x) xs \<noteq> xs"
    using assms by (auto simp: takeWhile_eq_all_conv)
  moreover have "takeWhile (\<lambda>k. k \<noteq> x) xs = take ?r xs"
    by (rule takeWhile_eq_take)
  ultimately have "?r \<noteq> length xs"
    by (metis take_all order_refl)
  then have lt: "?r < length xs"
    using length_takeWhile_le [of "\<lambda>k. k \<noteq> x" xs] by simp
  then show "first_position (\<lambda>k. k = x) xs < length xs"
    by (simp add: first_position_def)
  show "xs ! first_position (\<lambda>k. k = x) xs = x"
    using nth_length_takeWhile [OF lt] by (simp add: first_position_def)
qed

lemma is_permutation_set: "is_permutation p \<Longrightarrow> set p = {0..<length p}"
  unfolding is_permutation_def by (metis mset_eq_setD set_upt)

lemma inverse_permutation_props:
  assumes "is_permutation p"
  shows "length (inverse_permutation p) = length p"
    and "\<forall>k\<in>set (inverse_permutation p). k < length (inverse_permutation p)"
    and "i < length p \<Longrightarrow> p ! (inverse_permutation p ! i) = i"
proof -
  show len: "length (inverse_permutation p) = length p"
    by (simp add: inverse_permutation_def)
  have mem: "j \<in> set p" if "j < length p" for j
    using is_permutation_set [OF assms] that by simp
  show "\<forall>k\<in>set (inverse_permutation p). k < length (inverse_permutation p)"
    unfolding len
    by (auto simp: inverse_permutation_def intro!: first_position_found(1) mem)
  show "p ! (inverse_permutation p ! i) = i" if "i < length p"
    using that first_position_found(2) [OF mem [OF that]]
    by (simp add: inverse_permutation_def)
qed

text \<open>For a permutation of \<open>[0, n)\<close> held in an array of 32-bit integers, the
  permutation that \<^verbatim>\<open>argsort\<close> returns is its inverse.\<close>

lemma is_permutation_distinct: "is_permutation p \<Longrightarrow> distinct p"
  unfolding is_permutation_def by (metis distinct_upt mset_eq_imp_distinct_iff)

lemma sort_permutation_inverse:
  assumes "is_permutation ps"
  shows "sort_permutation (map real ps) = inverse_permutation ps"
proof -
  let ?n = "length ps" and ?ks = "map real ps"
  let ?zs = "sort_key fst (zip ?ks [0..<?n])"
  have fst_zip: "map fst (zip ?ks [0..<?n]) = ?ks"
    by simp
  have "mset (map fst ?zs) = mset ?ks"
    by (metis fst_zip mset_map mset_sort)
  also have "\<dots> = mset (map real [0..<?n])"
    using assms unfolding is_permutation_def by (metis mset_map)
  finally have m: "mset (map fst ?zs) = mset (map real [0..<?n])" .
  have s1: "sorted (map fst ?zs)" by (rule sorted_sort_key)
  have s2: "sorted (map real [0..<?n])"
    by (simp add: sorted_map sorted_wrt_iff_nth_less)
  have keys: "map fst ?zs = map real [0..<?n]"
    using m s1 s2 by (metis properties_for_sort)
  have len: "length ?zs = ?n" by simp
  show ?thesis
  proof (rule nth_equalityI)
    show "length (sort_permutation ?ks) = length (inverse_permutation ps)"
      by (simp add: sort_permutation_def inverse_permutation_def)
    fix i assume "i < length (sort_permutation ?ks)"
    then have i: "i < ?n" by (simp add: sort_permutation_def)
    have "?zs ! i \<in> set ?zs" using i len by (metis nth_mem)
    then have "?zs ! i \<in> set (zip ?ks [0..<?n])" by simp
    then obtain j where j: "j < ?n" "?zs ! i = (?ks ! j, [0..<?n] ! j)"
      by (auto simp: in_set_zip)
    have "fst (?zs ! i) = real i"
      using keys i len by (metis length_map nth_map nth_upt add_0)
    then have pj: "ps ! j = i" using j by simp
    have "i \<in> set ps" using pj j by (metis nth_mem)
    from first_position_found [OF this]
    have "first_position (\<lambda>k. k = i) ps < ?n" "ps ! first_position (\<lambda>k. k = i) ps = i" .
    then have "first_position (\<lambda>k. k = i) ps = j"
      using pj j(1) is_permutation_distinct [OF assms] by (metis nth_eq_iff_index_eq)
    moreover have "sort_permutation ?ks ! i = j"
      using j i len by (simp add: sort_permutation_def)
    ultimately show "sort_permutation ?ks ! i = inverse_permutation ps ! i"
      using i by (simp add: inverse_permutation_def)
  qed
qed

lemma argsort_inverse_permutation:
  assumes "p < length h" and "dtype (h ! p) = int32" and "elems (h ! p) = map real ps"
    and "is_permutation ps"
  shows "fst (argsort h p) = Inr (length h)"
    and "elems (snd (argsort h p) ! length h) = map real (inverse_permutation ps)"
    and "dtype (snd (argsort h p) ! length h) = int32"
proof -
  have s: "supported (dtype (h ! p))"
    using assms(2) by (simp add: supported_def)
  show "fst (argsort h p) = Inr (length h)"
    by (simp add: argsort_supported [OF s])
  show "elems (snd (argsort h p) ! length h) = map real (inverse_permutation ps)"
    using assms(1,3) sort_permutation_inverse [OF assms(4)]
    by (simp add: argsort_supported [OF s] thrust_get_sort_perm_def Let_def nth_append)
  show "dtype (snd (argsort h p) ! length h) = int32"
    using assms(1)
    by (simp add: argsort_supported [OF s] thrust_get_sort_perm_def Let_def nth_append)
qed

text \<open>
  Claim C8. For an array \<open>a\<close> of a supported element type and a permutation \<open>p\<close> of its
  index range, \<^verbatim>\<open>apply_permutation\<close> with \<open>p\<close> and then \<^verbatim>\<open>apply_permutation\<close> of the
  result with the inverse permutation of \<open>p\<close> both succeed, and the second returns an
  array equal to \<open>a\<close>.
\<close>

theorem permutation_round_trip:
  assumes "a < length h" and "p < length h" and "q < length h"
    and "supported (dtype (h ! a))"
    and "dtype (h ! p) = int32" and "dtype (h ! q) = int32"
    and "elems (h ! p) = map real ps" and "is_permutation ps"
    and "length ps = length (elems (h ! a))"
    and "elems (h ! q) = map real (inverse_permutation ps)"
  shows "fst (apply_permutation h a p) = Inr (length h)
       \<and> fst (apply_permutation (snd (apply_permutation h a p)) (length h) q)
           = Inr (Suc (length h))
       \<and> snd (apply_permutation (snd (apply_permutation h a p)) (length h) q) ! Suc (length h)
           = h ! a"
proof -
  let ?n = "length ps" and ?inv = "inverse_permutation ps"
  let ?B = "\<lparr>dtype = dtype (h ! a), elems = map (\<lambda>i. elems (h ! a) ! (ps ! i)) [0..<?n]\<rparr>"
  let ?h1 = "h @ [?B]"
  have valid: "\<forall>k\<in>set ps. k < ?n"
    using is_permutation_set [OF assms(8)] by simp
  have one: "apply_permutation h a p = (Inr (length h), ?h1)"
    by (rule apply_permutation_indices [OF assms(1,2,4,5,7,9) valid])
  note inv = inverse_permutation_props [OF assms(8)]
  have b: "length h < length ?h1" and q: "q < length ?h1"
    using assms(3) by simp_all
  have sb: "supported (dtype (?h1 ! length h))"
    using assms(4) by simp
  have dq: "dtype (?h1 ! q) = int32" and eq: "elems (?h1 ! q) = map real ?inv"
    using assms(3,6,10) by (simp_all add: nth_append)
  have len: "length ?inv = length (elems (?h1 ! length h))"
    using inv(1) by simp
  have elems: "map (\<lambda>i. elems (?h1 ! length h) ! (?inv ! i)) [0..<length ?inv] = elems (h ! a)"
  proof (rule nth_equalityI)
    show "length (map (\<lambda>i. elems (?h1 ! length h) ! (?inv ! i)) [0..<length ?inv])
        = length (elems (h ! a))"
      using inv(1) assms(9) by simp
    fix i assume "i < length (map (\<lambda>i. elems (?h1 ! length h) ! (?inv ! i)) [0..<length ?inv])"
    then have i: "i < ?n" using inv(1) by simp
    then have "?inv ! i < ?n"
      using inv(1,2) by (metis nth_mem)
    then show "map (\<lambda>i. elems (?h1 ! length h) ! (?inv ! i)) [0..<length ?inv] ! i
        = elems (h ! a) ! i"
      using i inv(1) inv(3) [OF i] by simp
  qed
  have two: "apply_permutation ?h1 (length h) q
      = (Inr (length ?h1),
         ?h1 @ [\<lparr>dtype = dtype (?h1 ! length h),
                  elems = map (\<lambda>i. elems (?h1 ! length h) ! (?inv ! i)) [0..<length ?inv]\<rparr>])"
    by (rule apply_permutation_indices [OF b q sb dq eq len inv(2)])
  have "snd (apply_permutation ?h1 (length h) q) ! Suc (length h) = h ! a"
    unfolding two elems by (simp add: nth_append)
  then show ?thesis
    unfolding one using two by simp
qed

theorem permutation_round_trip_witness:
  "0 < length double_store \<and> 1 < length double_store \<and> 2 < length double_store
   \<and> supported (dtype (double_store ! 0))
   \<and> dtype (double_store ! 1) = int32 \<and> dtype (double_store ! 2) = int32
   \<and> elems (double_store ! 1) = map real [2, 0, 1] \<and> is_permutation [2, 0, 1]
   \<and> length [2, 0, 1 :: nat] = length (elems (double_store ! 0))
   \<and> elems (double_store ! 2) = map real (inverse_permutation [2, 0, 1])
   \<and> fst (apply_permutation double_store 0 1) = Inr 3
   \<and> snd (apply_permutation (snd (apply_permutation double_store 0 1)) 3 2) ! 4
       = \<lparr>dtype = float64, elems = [3, 1, 2]\<rparr>"
proof -
  have inv: "inverse_permutation [2, 0, 1] = [1, 2, 0]"
    by (simp add: inverse_permutation_def first_position_def upt_conv_Cons numeral_3_eq_3)
  have perm: "is_permutation [2, 0, 1]"
    by (simp add: is_permutation_def upt_conv_Cons numeral_3_eq_3 numeral_2_eq_2)
  have h1: "0 < length double_store" "1 < length double_store" "2 < length double_store"
    "supported (dtype (double_store ! 0))"
    "dtype (double_store ! 1) = int32" "dtype (double_store ! 2) = int32"
    "elems (double_store ! 1) = map real [2, 0, 1]"
    by (simp_all add: double_store_def supported_def)
  have h2: "length [2, 0, 1 :: nat] = length (elems (double_store ! 0))"
    by (simp add: double_store_def)
  have h3: "elems (double_store ! 2) = map real (inverse_permutation [2, 0, 1])"
    unfolding inv by (simp add: double_store_def)
  note h = h1 perm h2 h3
  have l: "length double_store = 3" "Suc 3 = 4"
    "double_store ! 0 = \<lparr>dtype = float64, elems = [3, 1, 2]\<rparr>"
    by (simp_all add: double_store_def)
  note res = permutation_round_trip [OF h, unfolded l]
  from h res show ?thesis by blast
qed

section \<open>Value arrays longer than the slice index array\<close>

lemma slice_values_take:
  assumes "i < length lower" and "i < length upper" and "upper ! i \<le> m" and "m \<le> length u"
  shows "slice_values lower upper (take m u) i = slice_values lower upper u i"
proof (cases "upper ! i \<le> lower ! i")
  case True
  then show ?thesis using assms(1,2) by (simp add: slice_values_def)
next
  case False
  then have "min (upper ! i - lower ! i) (m - lower ! i) = upper ! i - lower ! i"
    using assms(3) by simp
  then have "take (upper ! i - lower ! i) (drop (lower ! i) (take m u))
      = take (upper ! i - lower ! i) (drop (lower ! i) u)"
    by (simp add: drop_take)
  then show ?thesis
    using assms False by (simp add: slice_values_def)
qed

lemma sorted_cov_per_slice_longer:
  assumes "bounds_guard t = (Inr (), equipped s)"
    and "sorted (slice_index_of_particle s)"
    and "length (slice_index_of_particle s) \<le> length u"
    and "length (slice_index_of_particle s) \<le> length v"
  shows "sorted_cov_per_slice t u v
     = sorted_cov_per_slice t (take (length (slice_index_of_particle s)) u)
         (take (length (slice_index_of_particle s)) v)"
proof -
  let ?idx = "slice_index_of_particle s" and ?n = "n_slices s"
  let ?lb = "map (lower_of ?idx) [0..<?n]" and ?ub = "map (upper_of ?idx) [0..<?n]"
  have lb: "lower_bounds (equipped s) = Some ?lb"
    and ub: "upper_bounds (equipped s) = Some ?ub"
    using assms(2) by (simp_all add: lower_bound_int_sorted upper_bound_int_sorted)
  have sv: "slice_values ?lb ?ub (take (length ?idx) w) i = slice_values ?lb ?ub w i"
    if "i < ?n" "length ?idx \<le> length w" for i w
    using that upper_of_le_length [of ?idx i] by (intro slice_values_take) simp_all
  have "sorted_cov_per_slice_kernel ?lb ?ub (take (length ?idx) u) (take (length ?idx) v) ?n g
      = sorted_cov_per_slice_kernel ?lb ?ub u v ?n g" for g
    unfolding sorted_cov_per_slice_kernel_def
    by (rule arg_cong [where f = collect], rule map_cong [OF refl])
      (simp add: sv assms(3,4) cong: sum.case_cong)
  then show ?thesis
    by (simp add: sorted_cov_per_slice_unfold [OF assms(1) lb ub])
qed

lemma sorted_cov_per_slice_leading:
  assumes "upper_bounds s = None" and "lower_bounds s = None" and "0 < n_slices s"
    and "sorted (slice_index_of_particle s)"
    and "length (slice_index_of_particle s) \<le> length u"
    and "length (slice_index_of_particle s) \<le> length v"
  shows "fst (sorted_cov_per_slice s u v)
     = Inr (map (slice_cov (slice_index_of_particle s)
                   (take (length (slice_index_of_particle s)) u)
                   (take (length (slice_index_of_particle s)) v)) [0..<n_slices s])"
proof -
  note g = bounds_guard_first [OF assms(1-3)]
  have "length (take (length (slice_index_of_particle s)) u) = length (slice_index_of_particle s)"
    "length (take (length (slice_index_of_particle s)) v) = length (slice_index_of_particle s)"
    using assms(5,6) by simp_all
  then show ?thesis
    unfolding sorted_cov_per_slice_longer [OF g assms(4-6)]
    by (simp add: sorted_cov_per_slice_of_guard [OF g assms(4)])
qed

text \<open>
  Claim C7 fails for the three particles of \<open>three_particles\<close> and value arrays of four
  entries: the covariance per slice is computed from the first three entries and
  returned, and no exception is raised.
\<close>

theorem length_mismatch_not_detected:
  "length [0, 2, 4, 100 :: real] \<noteq> length (slice_index_of_particle three_particles)
   \<and> fst (sorted_cov_per_slice three_particles [0, 2, 4, 100] [0, 2, 4, 100]) = Inr [2, 0]
   \<and> \<not> (\<exists>e. fst (sorted_cov_per_slice three_particles [0, 2, 4, 100] [0, 2, 4, 100]) = Inl e)"
proof -
  have h: "upper_bounds three_particles = None" "lower_bounds three_particles = None"
    "0 < n_slices three_particles" "sorted (slice_index_of_particle three_particles)"
    "length (slice_index_of_particle three_particles) \<le> length [0, 2, 4, 100 :: real]"
    by (simp_all add: three_particles_def)
  have idx: "slice_index_of_particle three_particles = [0, 0, 0]"
    and n: "n_slices three_particles = 2"
    by (simp_all add: three_particles_def)
  have upt2: "[0..<2] = [0, Suc 0]"
    by (simp add: upt_conv_Cons numeral_2_eq_2)
  have "fst (sorted_cov_per_slice three_particles [0, 2, 4, 100] [0, 2, 4, 100]) = Inr [2, 0]"
    unfolding sorted_cov_per_slice_leading [OF h h(5)] idx n upt2
    by (simp add: slice_cov_def three_values three_cov)
  then show ?thesis by (simp add: idx)
qed

text \<open>
  Claim C7 as amended. No operation compares lengths. \<^verbatim>\<open>sorted_cov_per_slice\<close>,
  given a sliceset with an ascending index array and at least one slice and two value
  arrays with at least as many entries as there are particles, returns the covariance per
  slice of their leading entries. What \<^verbatim>\<open>apply_permutation\<close> checks at its boundary
  are the element types, whatever the lengths: a permutation that is not of 32-bit
  integers is an \<^verbatim>\<open>AssertionError\<close>, and with such a permutation an array of an
  unsupported type is a \<^verbatim>\<open>TypeError\<close>.
\<close>

theorem lengths_not_compared:
  assumes "upper_bounds s = None" and "lower_bounds s = None" and "0 < n_slices s"
    and "sorted (slice_index_of_particle s)"
    and "length (slice_index_of_particle s) \<le> length u"
    and "length (slice_index_of_particle s) \<le> length v"
  shows "fst (sorted_cov_per_slice s u v)
           = Inr (map (slice_cov (slice_index_of_particle s)
                         (take (length (slice_index_of_particle s)) u)
                         (take (length (slice_index_of_particle s)) v)) [0..<n_slices s])
       \<and> (dtype (h ! permutation) \<noteq> int32 \<longrightarrow>
            fst (apply_permutation h array permutation) = Inl AssertionError)
       \<and> (dtype (h ! permutation) = int32 \<and> \<not> supported (dtype (h ! array)) \<longrightarrow>
            fst (apply_permutation h array permutation) = Inl TypeError)"
  using sorted_cov_per_slice_leading [OF assms]
    apply_permutation_assertion [of h permutation array]
    apply_permutation_unsupported [of h permutation array]
  by simp

theorem lengths_not_compared_witness:
  "upper_bounds six_particles = None \<and> lower_bounds six_particles = None
   \<and> 0 < n_slices six_particles \<and> sorted (slice_index_of_particle six_particles)
   \<and> length (slice_index_of_particle six_particles) \<le> length [1, 3, 2, 4, 6, 10, 7, 7 :: real]
   \<and> fst (sorted_cov_per_slice six_particles [1, 3, 2, 4, 6, 10, 7, 7]
             [1, 3, 2, 4, 6, 10, 7, 7]) = Inr [2 / 3, 2, 0]
   \<and> dtype (single_store ! 0) \<noteq> int32
   \<and> fst (apply_permutation single_store 1 0) = Inl AssertionError
   \<and> dtype (single_store ! 1) = int32 \<and> \<not> supported (dtype (single_store ! 0))
   \<and> fst (apply_permutation single_store 0 1) = Inl TypeError"
proof -
  have h: "upper_bounds six_particles = None" "lower_bounds six_particles = None"
    "0 < n_slices six_particles" "sorted (slice_index_of_particle six_particles)"
    "length (slice_index_of_particle six_particles) \<le> length [1, 3, 2, 4, 6, 10, 7, 7 :: real]"
    by (simp_all add: six_particles_def)
  have t: "dtype (single_store ! 0) \<noteq> int32" "dtype (single_store ! 1) = int32"
    "\<not> supported (dtype (single_store ! 0))"
    by (simp_all add: single_store_def supported_iff is_int32_iff float32_def)
  have tk: "take (length [0, 0, 1, 1, 1, 2 :: int]) [1, 3, 2, 4, 6, 10, 7, 7 :: real]
      = [1, 3, 2, 4, 6, 10]"
    by simp
  have per_slice: "map (slice_cov [0, 0, 1, 1, 1, 2] [1, 3, 2, 4, 6, 10] [1, 3, 2, 4, 6, 10])
      [0, 1, 2] = [2 / 3, 2, 0]"
    by (simp add: slice_cov_def six_values cov_examples)
  note r1 = lengths_not_compared [OF h h(5), of single_store 0 1,
      unfolded six_fresh(2,3) upt3 tk per_slice]
  note r2 = lengths_not_compared [OF h h(5), of single_store 1 0,
      unfolded six_fresh(2,3) upt3 tk per_slice]
  from h t r1 r2 show ?thesis by blast
qed

end
